theory Spec2Isabelle
  imports Main "HOL-Library.Sublist"
begin

section \<open>Python strings\<close>

text \<open>
  Python \<open>str\<close> values are modelled as \<open>string\<close> (a list of 8-bit characters), so the
  development covers text whose code points are below 256; indices count characters.

  \<open>s.find(sub)\<close>: the lowest index where \<open>sub\<close> occurs in \<open>s\<close>, and \<open>-1\<close> when it does
  not occur.
\<close>

fun str_find :: "string \<Rightarrow> string \<Rightarrow> int" where
  "str_find [] sub = (if sub = [] then 0 else - 1)"
| "str_find (c # cs) sub =
     (if prefix sub (c # cs) then 0
      else (let i = str_find cs sub in if i < 0 then - 1 else i + 1))"

text \<open>\<open>sub in s\<close>: \<open>sub\<close> occurs somewhere in \<open>s\<close>.\<close>

fun str_contains :: "string \<Rightarrow> string \<Rightarrow> bool" where
  "str_contains [] sub = (sub = [])"
| "str_contains (c # cs) sub = (prefix sub (c # cs) \<or> str_contains cs sub)"

text \<open>
  \<open>s[i:]\<close>: a negative start counts from the end and is clipped at the beginning of the
  string; a start beyond the end gives the empty string.
\<close>

definition str_slice_from :: "string \<Rightarrow> int \<Rightarrow> string" where
  "str_slice_from s i =
     (let n = int (length s);
          j = (if i < 0 then max 0 (n + i) else i)
      in drop (nat j) s)"

text \<open>\<open>s.lower()\<close> on the letters \<open>A\<close> to \<open>Z\<close>; every other character is kept.\<close>

definition char_lower :: "char \<Rightarrow> char" where
  "char_lower c =
     (let n = (of_char c :: nat) in if 65 \<le> n \<and> n \<le> 90 then char_of (n + 32) else c)"

definition str_lower :: "string \<Rightarrow> string" where
  "str_lower s = map char_lower s"

section \<open>Regular expressions\<close>

text \<open>
  The fragment of Python's \<open>re\<close> syntax that \<open>regex_ansi_escape_sequences\<close> uses: character
  classes given as inclusive ranges (a literal character is a one-element range),
  concatenation, alternation \<open>a|b\<close> and the greedy star \<open>a*\<close>.
\<close>

datatype regex =
    Cls "(char \<times> char) list"
  | Seq regex regex
  | Alt regex regex
  | Star regex

definition in_class :: "(char \<times> char) list \<Rightarrow> char \<Rightarrow> bool" where
  "in_class rs c =
     list_ex (\<lambda>(lo, hi). (of_char lo :: nat) \<le> of_char c \<and> (of_char c :: nat) \<le> of_char hi) rs"

text \<open>
  \<open>matches r s\<close> lists what is left of \<open>s\<close> after each way of matching \<open>r\<close> at the start of
  \<open>s\<close>, in the order in which a backtracking matcher tries them: the left alternative
  before the right one, one more iteration of a star before stopping. A star iterates
  only on a match that consumed input.
\<close>

fun matches :: "regex \<Rightarrow> string \<Rightarrow> string list" where
  "matches (Cls rs) s =
     (case s of [] \<Rightarrow> [] | c # cs \<Rightarrow> if in_class rs c then [cs] else [])"
| "matches (Seq a b) s = concat (map (matches b) (matches a s))"
| "matches (Alt a b) s = matches a s @ matches b s"
| "matches (Star a) s =
     concat (map (\<lambda>t. if length t < length s then matches (Star a) t else []) (matches a s))
     @ [s]"

text \<open>\<open>pattern.match(s)\<close>: the first way found, as the rest of the input after the match.\<close>

definition re_match :: "regex \<Rightarrow> string \<Rightarrow> string option" where
  "re_match r s = (case matches r s of [] \<Rightarrow> None | t # _ \<Rightarrow> Some t)"

text \<open>\<open>pattern.search(s) is not None\<close>: the pattern matches at some position of \<open>s\<close>.\<close>

fun re_search :: "regex \<Rightarrow> string \<Rightarrow> bool" where
  "re_search r [] = (re_match r [] \<noteq> None)"
| "re_search r (c # cs) = (re_match r (c # cs) \<noteq> None \<or> re_search r cs)"

text \<open>
  \<open>pattern.sub('', s)\<close>: scanning from the left, every non-overlapping match is removed.
  A match of the empty string removes nothing and the scan moves on by one character.
\<close>

function re_sub_empty :: "regex \<Rightarrow> string \<Rightarrow> string" where
  "re_sub_empty r [] = []"
| "re_sub_empty r (c # cs) =
     (case re_match r (c # cs) of
        None \<Rightarrow> c # re_sub_empty r cs
      | Some t \<Rightarrow>
          if length t < length (c # cs) then re_sub_empty r t else c # re_sub_empty r cs)"
  by pat_completeness auto
termination
  by (relation "measure (\<lambda>(r, s). length s)") auto

text \<open>
  Line 40: \<open>re.compile(r'\x1B(?:[@-Z\\-_]|\[[0-?]*[ -/]*[@-~])')\<close>. In the first class
  \<open>\\-_\<close> is the range from the backslash (0x5C) to the underscore (0x5F).
\<close>

definition regex_ansi_escape_sequences :: regex where
  "regex_ansi_escape_sequences =
     Seq (Cls [(CHR 0x1B, CHR 0x1B)])
       (Alt (Cls [(CHR ''@'', CHR ''Z''), (CHR 0x5C, CHR ''_'')])
            (Seq (Cls [(CHR ''['', CHR ''['')])
              (Seq (Star (Cls [(CHR ''0'', CHR ''?'')]))
                (Seq (Star (Cls [(CHR '' '', CHR ''/'')]))
                     (Cls [(CHR ''@'', CHR ''~'')])))))"

section \<open>Errors\<close>

text \<open>
  The exceptions of the program, by their Python class. The program itself raises
  \<open>FileExistsError\<close> (no \<open>dbt_project.yml\<close> up to the root, line 68; no \<open>packages.yml\<close>,
  line 76) and \<open>ValueError\<close> (the codegen package is not listed, line 83);
  \<open>subprocess.run(..., check=True)\<close> raises \<open>CalledProcessError\<close> with the exit status; the
  others come from the file system, from the YAML parser and from operations on parsed
  values.
\<close>

datatype error =
    FileExistsError
  | FileNotFoundError
  | IsADirectoryError
  | NotADirectoryError
  | ValueError
  | TypeError
  | AttributeError
  | KeyError
  | IndexError
  | CalledProcessError int
  | YAMLError

section \<open>Paths\<close>

type_synonym path = string

definition startswith_sep :: "path \<Rightarrow> bool" where
  "startswith_sep p = (case p of [] \<Rightarrow> False | c # _ \<Rightarrow> c = CHR ''/'')"

definition endswith_sep :: "path \<Rightarrow> bool" where
  "endswith_sep p = (p \<noteq> [] \<and> last p = CHR ''/'')"

text \<open>
  \<open>os.path.join(a, b)\<close> of posixpath: an absolute \<open>b\<close> replaces \<open>a\<close>; otherwise \<open>b\<close> is
  appended, after a separator unless \<open>a\<close> is empty or ends with one.
\<close>

definition os_path_join :: "path \<Rightarrow> path \<Rightarrow> path" where
  "os_path_join a b =
     (if startswith_sep b then b
      else if a = [] \<or> endswith_sep a then a @ b
      else a @ ''/'' @ b)"

text \<open>
  \<open>os.path.dirname(p)\<close> of posixpath: \<open>p\<close> up to and including its last separator, with
  the trailing separators removed unless nothing else is left.
\<close>

definition rstrip_sep :: "path \<Rightarrow> path" where
  "rstrip_sep p = rev (dropWhile (\<lambda>c. c = CHR ''/'') (rev p))"

definition os_path_dirname :: "path \<Rightarrow> path" where
  "os_path_dirname p =
     (let head = rev (dropWhile (\<lambda>c. c \<noteq> CHR ''/'') (rev p))
      in if head \<noteq> [] \<and> head \<noteq> replicate (length head) (CHR ''/'') then rstrip_sep head
         else head)"

lemma prefix_rev_dropWhile_rev: "prefix (rev (dropWhile P (rev p))) p"
proof -
  have "rev p = takeWhile P (rev p) @ dropWhile P (rev p)"
    by simp
  then have "p = rev (dropWhile P (rev p)) @ rev (takeWhile P (rev p))"
    by (metis rev_append rev_rev_ident)
  then show ?thesis
    by (metis prefixI)
qed

lemma prefix_os_path_dirname: "prefix (os_path_dirname p) p"
proof -
  let ?head = "rev (dropWhile (\<lambda>c. c \<noteq> CHR ''/'') (rev p))"
  have h: "prefix ?head p"
    by (rule prefix_rev_dropWhile_rev)
  have "prefix (rstrip_sep ?head) ?head"
    unfolding rstrip_sep_def by (rule prefix_rev_dropWhile_rev)
  with h have "prefix (rstrip_sep ?head) p"
    by (rule prefix_order.trans [rotated])
  with h show ?thesis
    by (simp add: os_path_dirname_def Let_def)
qed

lemma os_path_dirname_shorter:
  "os_path_dirname p \<noteq> p \<Longrightarrow> length (os_path_dirname p) < length p"
  using prefix_os_path_dirname [of p]
  by (metis prefix_length_le le_neq_implies_less prefix_length_prefix prefix_order.refl
      prefix_order.antisym)

text \<open>The proper ancestors of a path, nearest first.\<close>

function parents :: "path \<Rightarrow> path list" where
  "parents p =
     (let d = os_path_dirname p in if d = p \<or> d = [] then [] else d # parents d)"
  by pat_completeness auto
termination
  by (relation "measure length") (auto simp: os_path_dirname_shorter)

declare parents.simps [simp del]

section \<open>The world outside the program\<close>

text \<open>
  The file system and the record of the external processes run so far. A file or a
  directory is identified by its path string resolved against the working directory;
  no path is normalised, so two spellings of one path are two entries.
  \<open>invoked\<close> lists every external command the program has run, with the working
  directory it was given, oldest first.
\<close>

record world =
  cwd :: path
  dirs :: "path set"
  files :: "path \<rightharpoonup> string"
  invoked :: "(string \<times> path) list"

definition resolve :: "world \<Rightarrow> path \<Rightarrow> path" where
  "resolve w p = os_path_join (cwd w) p"

definition os_path_isfile :: "world \<Rightarrow> path \<Rightarrow> bool" where
  "os_path_isfile w p = (files w (resolve w p) \<noteq> None)"

definition os_path_isdir :: "world \<Rightarrow> path \<Rightarrow> bool" where
  "os_path_isdir w p = (resolve w p \<in> dirs w)"

definition os_path_exists :: "world \<Rightarrow> path \<Rightarrow> bool" where
  "os_path_exists w p = (os_path_isfile w p \<or> os_path_isdir w p)"

text \<open>
  \<open>os.makedirs(name, exist_ok=True)\<close>: nothing happens when the directory exists; it
  cannot be made where a file has its name or the name of one of its ancestors;
  otherwise the directory and its missing ancestors are made.
\<close>

definition os_makedirs :: "path \<Rightarrow> world \<Rightarrow> (error + unit) \<times> world" where
  "os_makedirs name w =
     (let a = resolve w name in
      if a \<in> dirs w then (Inr (), w)
      else if files w a \<noteq> None then (Inl FileExistsError, w)
      else if list_ex (\<lambda>d. files w d \<noteq> None) (parents a) then (Inl NotADirectoryError, w)
      else (Inr (), w\<lparr>dirs := dirs w \<union> set (parents a) \<union> {a}\<rparr>))"

text \<open>\<open>open(p, 'r').read()\<close>.\<close>

definition read_file :: "world \<Rightarrow> path \<Rightarrow> error + string" where
  "read_file w p =
     (let a = resolve w p in
      case files w a of
        Some text \<Rightarrow> Inr text
      | None \<Rightarrow> if a \<in> dirs w then Inl IsADirectoryError else Inl FileNotFoundError)"

text \<open>
  \<open>with open(p, mode) as f: f.write(text)\<close> for the modes \<open>'w'\<close> and \<open>'a'\<close>: the file is
  created when it is missing, provided its directory exists; \<open>'w'\<close> replaces the
  contents, \<open>'a'\<close> adds to their end.
\<close>

datatype open_mode = Mode_w | Mode_a

definition write_file :: "path \<Rightarrow> open_mode \<Rightarrow> string \<Rightarrow> world \<Rightarrow> (error + unit) \<times> world" where
  "write_file p mode text w =
     (let a = resolve w p in
      if a \<in> dirs w then (Inl IsADirectoryError, w)
      else if os_path_dirname a \<notin> dirs w then (Inl FileNotFoundError, w)
      else (Inr (),
            w\<lparr>files := (files w)(a \<mapsto>
                 (case mode of
                    Mode_w \<Rightarrow> text
                  | Mode_a \<Rightarrow> (case files w a of None \<Rightarrow> text | Some old \<Rightarrow> old @ text)))\<rparr>))"

section \<open>Parsed YAML values\<close>

text \<open>
  What \<open>yaml.safe_load\<close> returns, as far as the program looks into it: \<open>None\<close>, booleans,
  integers, strings, lists and dictionaries (as association lists in the order of the
  document, keys compared structurally).
\<close>

datatype yaml =
    YNull
  | YBool bool
  | YInt int
  | YStr string
  | YSeq "yaml list"
  | YMap "(yaml \<times> yaml) list"

text \<open>Truth value of an object, as \<open>x or {}\<close> tests it.\<close>

fun py_truthy :: "yaml \<Rightarrow> bool" where
  "py_truthy YNull = False"
| "py_truthy (YBool b) = b"
| "py_truthy (YInt i) = (i \<noteq> 0)"
| "py_truthy (YStr s) = (s \<noteq> [])"
| "py_truthy (YSeq xs) = (xs \<noteq> [])"
| "py_truthy (YMap kvs) = (kvs \<noteq> [])"

text \<open>Lists and dictionaries cannot be dictionary keys.\<close>

fun py_hashable :: "yaml \<Rightarrow> bool" where
  "py_hashable (YSeq xs) = False"
| "py_hashable (YMap kvs) = False"
| "py_hashable v = True"

fun str_of_nat :: "nat \<Rightarrow> string" where
  "str_of_nat n =
     (if n < 10 then [char_of (48 + n)] else str_of_nat (n div 10) @ [char_of (48 + n mod 10)])"

declare str_of_nat.simps [simp del]

definition py_str_bool :: "bool \<Rightarrow> string" where
  "py_str_bool b = (if b then ''True'' else ''False'')"

text \<open>
  How an f-string renders a value. Only hashable values are ever rendered where the
  result is kept, so lists and dictionaries are given the empty string.
\<close>

fun py_str :: "yaml \<Rightarrow> string" where
  "py_str YNull = ''None''"
| "py_str (YBool b) = py_str_bool b"
| "py_str (YInt i) = (if i < 0 then ''-'' @ str_of_nat (nat (- i)) else str_of_nat (nat i))"
| "py_str (YStr s) = s"
| "py_str (YSeq xs) = []"
| "py_str (YMap kvs) = []"

text \<open>\<open>v[key]\<close> for a string key and for the index \<open>0\<close>.\<close>

fun py_getitem_str :: "yaml \<Rightarrow> string \<Rightarrow> error + yaml" where
  "py_getitem_str (YMap kvs) key =
     (case map_of kvs (YStr key) of None \<Rightarrow> Inl KeyError | Some v \<Rightarrow> Inr v)"
| "py_getitem_str v key = Inl TypeError"

fun py_getitem_0 :: "yaml \<Rightarrow> error + yaml" where
  "py_getitem_0 (YMap kvs) =
     (case map_of kvs (YInt 0) of None \<Rightarrow> Inl KeyError | Some v \<Rightarrow> Inr v)"
| "py_getitem_0 (YSeq xs) = (case xs of [] \<Rightarrow> Inl IndexError | x # _ \<Rightarrow> Inr x)"
| "py_getitem_0 (YStr s) = (case s of [] \<Rightarrow> Inl IndexError | c # _ \<Rightarrow> Inr (YStr [c]))"
| "py_getitem_0 v = Inl TypeError"

text \<open>\<open>v.get(key, dflt)\<close>: only dictionaries have it.\<close>

fun py_get :: "yaml \<Rightarrow> string \<Rightarrow> yaml \<Rightarrow> error + yaml" where
  "py_get (YMap kvs) key dflt =
     (case map_of kvs (YStr key) of None \<Rightarrow> Inr dflt | Some v \<Rightarrow> Inr v)"
| "py_get v key dflt = Inl AttributeError"

text \<open>The items a \<open>for\<close> loop or a comprehension visits.\<close>

fun py_iter :: "yaml \<Rightarrow> error + yaml list" where
  "py_iter (YSeq xs) = Inr xs"
| "py_iter (YMap kvs) = Inr (map fst kvs)"
| "py_iter (YStr s) = Inr (map (\<lambda>c. YStr [c]) s)"
| "py_iter v = Inl TypeError"

text \<open>A comprehension whose element expression may raise: the first error ends it.\<close>

fun map_err :: "('a \<Rightarrow> error + 'b) \<Rightarrow> 'a list \<Rightarrow> error + 'b list" where
  "map_err f [] = Inr []"
| "map_err f (x # xs) =
     (case f x of
        Inl e \<Rightarrow> Inl e
      | Inr y \<Rightarrow> (case map_err f xs of Inl e \<Rightarrow> Inl e | Inr ys \<Rightarrow> Inr (y # ys)))"

section \<open>External collaborators\<close>

text \<open>
  The two collaborators whose code is not the program's: the external commands
  (\<open>dbt deps\<close> and the two \<open>dbt run-operation\<close> generators), given by the exit status and
  the standard output of a command run in a directory in a world (so the outcome may
  depend on the files and on what ran before); and the YAML parser. The commands are
  taken to leave the modelled files and directories as they are.
\<close>

record env =
  run_process :: "string \<Rightarrow> path \<Rightarrow> world \<Rightarrow> int \<times> string"
  yaml_safe_load :: "string \<Rightarrow> error + yaml"

text \<open>
  \<open>subprocess.run(command, check=True, cwd=directory, ...)\<close>: the command is run and
  recorded; a non-zero exit status raises \<open>CalledProcessError\<close>, otherwise the captured
  output is returned.
\<close>

definition subprocess_run :: "env \<Rightarrow> string \<Rightarrow> path \<Rightarrow> world \<Rightarrow> (error + string) \<times> world" where
  "subprocess_run ev command directory w =
     (let (returncode, stdout) = run_process ev command directory w;
          w1 = w\<lparr>invoked := invoked w @ [(command, directory)]\<rparr>
      in if returncode \<noteq> 0 then (Inl (CalledProcessError returncode), w1)
         else (Inr stdout, w1))"

section \<open>The program\<close>

text \<open>
  The functions of \<open>bulk_codegen.py\<close>, under the source's names. A function that touches
  the file system or runs a command takes the world and returns its result, or the
  exception it raised, together with the world it leaves behind. The calls of
  \<open>logging.info\<close> have no effect on any result and are left out.
\<close>

subsection \<open>fetch_dbt_project (lines 46 to 69)\<close>

text \<open>
  The loop of lines 59 to 66, from a candidate directory: at the root (\<open>/\<close>) the search
  fails; a candidate that holds \<open>dbt_project.yml\<close> is the result; otherwise the search
  goes on from the parent. A candidate other than the root that is its own parent sends
  the loop round for ever: the result \<open>None\<close>.
\<close>

function find_project :: "world \<Rightarrow> path \<Rightarrow> (error + path) option" where
  "find_project w project_directory =
     (if project_directory = ''/'' then Some (Inl FileExistsError)
      else if os_path_exists w (os_path_join project_directory ''dbt_project.yml'')
        then Some (Inr project_directory)
      else if os_path_dirname project_directory = project_directory then None
      else find_project w (os_path_dirname project_directory))"
  by pat_completeness auto
termination
  by (relation "measure (\<lambda>(w, p). length p)") (auto simp: os_path_dirname_shorter)

declare find_project.simps [simp del]

text \<open>An override that is \<open>None\<close> or the empty string is not used (line 56).\<close>

definition fetch_dbt_project :: "world \<Rightarrow> path option \<Rightarrow> (error + path) option" where
  "fetch_dbt_project w custom_project_path =
     (case custom_project_path of
        None \<Rightarrow> find_project w (cwd w)
      | Some p \<Rightarrow> if p \<noteq> [] then Some (Inr p) else find_project w (cwd w))"

subsection \<open>run_dbt_deps (lines 72 to 87)\<close>

definition run_dbt_deps :: "env \<Rightarrow> path \<Rightarrow> world \<Rightarrow> (error + unit) \<times> world" where
  "run_dbt_deps ev project_directory w =
     (let project_packages_file = os_path_join project_directory ''packages.yml'' in
      if \<not> os_path_isfile w project_packages_file then (Inl FileExistsError, w)
      else
        case read_file w project_packages_file of
          Inl e \<Rightarrow> (Inl e, w)
        | Inr text \<Rightarrow>
        case yaml_safe_load ev text of
          Inl e \<Rightarrow> (Inl e, w)
        | Inr loaded \<Rightarrow>
        let package_data = (if py_truthy loaded then loaded else YMap []) in
        case py_get package_data ''packages'' (YMap []) of
          Inl e \<Rightarrow> (Inl e, w)
        | Inr packages \<Rightarrow>
        case py_iter packages of
          Inl e \<Rightarrow> (Inl e, w)
        | Inr entries \<Rightarrow>
        case map_err (\<lambda>entry. py_get entry ''package'' YNull) entries of
          Inl e \<Rightarrow> (Inl e, w)
        | Inr package_list \<Rightarrow>
        if YStr ''fishtown-analytics/codegen'' \<notin> set package_list then (Inl ValueError, w)
        else
          case subprocess_run ev ''dbt deps'' project_directory w of
            (Inl e, w1) \<Rightarrow> (Inl e, w1)
          | (Inr out, w1) \<Rightarrow> (Inr (), w1))"

subsection \<open>source_cmd_generator (lines 90 to 110)\<close>

text \<open>
  Each element of the returned list is a dictionary with the one key \<open>source\<close>: a pair of
  the source name and the dictionary of its four entries.
\<close>

record source_data =
  destination_folder :: path
  destination_file_name :: string
  source_destination_path :: path
  source_command :: string

definition quoted :: "string \<Rightarrow> string" where
  "quoted s = [CHR 0x22] @ s @ [CHR 0x22]"

definition src_cmd :: "string \<Rightarrow> string \<Rightarrow> bool \<Rightarrow> string" where
  "src_cmd source db_name generate_columns =
     ''dbt run-operation generate_source --args '' @ [CHR 0x27] @ ''{''
     @ quoted ''schema_name'' @ '': '' @ quoted source @ '', ''
     @ quoted ''database_name'' @ '': '' @ quoted db_name @ '', ''
     @ quoted ''generate_columns'' @ '': '' @ py_str_bool generate_columns
     @ ''}'' @ [CHR 0x27]"

fun source_cmd_generator ::
  "string \<Rightarrow> string list \<Rightarrow> bool \<Rightarrow> path \<Rightarrow> world
     \<Rightarrow> (error + (string \<times> source_data) list) \<times> world" where
  "source_cmd_generator db_name [] generate_columns destination_folder_path w = (Inr [], w)"
| "source_cmd_generator db_name (source # source_list) generate_columns destination_folder_path w =
     (let destination_folder = os_path_join destination_folder_path source in
      case os_makedirs destination_folder w of
        (Inl e, w1) \<Rightarrow> (Inl e, w1)
      | (Inr u, w1) \<Rightarrow>
        let output_file_name = ''_src_'' @ source @ ''.yml'';
            destination_file_path = os_path_join destination_folder output_file_name;
            source_mapping =
              (source,
               \<lparr>destination_folder = destination_folder,
                destination_file_name = output_file_name,
                source_destination_path = destination_file_path,
                source_command = src_cmd source db_name generate_columns\<rparr>)
        in case source_cmd_generator db_name source_list generate_columns
                  destination_folder_path w1 of
             (Inl e, w2) \<Rightarrow> (Inl e, w2)
           | (Inr source_commands, w2) \<Rightarrow> (Inr (source_mapping # source_commands), w2))"

subsection \<open>src_yml_scan (lines 113 to 130)\<close>

text \<open>
  The scan adds the key \<open>tables\<close> to the dictionary of a source: a list of dictionaries
  with one key each, the table's name, holding the path of its model file.
\<close>

record table_data =
  file_name :: path

record source_with_tables = source_data +
  tables :: "(yaml \<times> table_data) list"

definition table_mapping :: "string \<Rightarrow> path \<Rightarrow> yaml \<Rightarrow> error + (yaml \<times> table_data)" where
  "table_mapping source_name folder d =
     (case py_getitem_str d ''name'' of
        Inl e \<Rightarrow> Inl e
      | Inr name \<Rightarrow>
          if \<not> py_hashable name then Inl TypeError
          else Inr (name,
                 \<lparr>file_name =
                    os_path_join folder (''stg_'' @ source_name @ ''__'' @ py_str name @ ''.sql'')\<rparr>))"

definition scan_source ::
  "env \<Rightarrow> world \<Rightarrow> string \<times> source_data \<Rightarrow> error + (string \<times> source_with_tables)" where
  "scan_source ev w source_mapping =
     (let (source_name, mapping_data) = source_mapping in
      case read_file w (source_destination_path mapping_data) of
        Inl e \<Rightarrow> Inl e
      | Inr text \<Rightarrow>
      case yaml_safe_load ev text of
        Inl e \<Rightarrow> Inl e
      | Inr data_loaded \<Rightarrow>
      case py_getitem_str data_loaded ''sources'' of
        Inl e \<Rightarrow> Inl e
      | Inr sources \<Rightarrow>
      case py_getitem_0 sources of
        Inl e \<Rightarrow> Inl e
      | Inr source0 \<Rightarrow>
      case py_getitem_str source0 ''tables'' of
        Inl e \<Rightarrow> Inl e
      | Inr tables_value \<Rightarrow>
      case py_iter tables_value of
        Inl e \<Rightarrow> Inl e
      | Inr tables_list \<Rightarrow>
      case map_err (table_mapping source_name (destination_folder mapping_data)) tables_list of
        Inl e \<Rightarrow> Inl e
      | Inr table_names \<Rightarrow>
          Inr (source_name,
               \<lparr>destination_folder = destination_folder mapping_data,
                destination_file_name = destination_file_name mapping_data,
                source_destination_path = source_destination_path mapping_data,
                source_command = source_command mapping_data,
                tables = table_names\<rparr>))"

definition src_yml_scan ::
  "env \<Rightarrow> (string \<times> source_data) list \<Rightarrow> world \<Rightarrow> error + (string \<times> source_with_tables) list" where
  "src_yml_scan ev source_mappings w = map_err (scan_source ev w) source_mappings"

subsection \<open>base_command_generator and all_base_commands_generator (lines 133 to 162)\<close>

text \<open>The generator adds the key \<open>base_command\<close> to the dictionary of a table.\<close>

record base_model_data = table_data +
  base_command :: string

definition base_cmd :: "string \<Rightarrow> yaml \<Rightarrow> string" where
  "base_cmd source_name table =
     ''dbt run-operation generate_base_model --args '' @ [CHR 0x27] @ ''{''
     @ quoted ''source_name'' @ '': '' @ quoted source_name @ '', ''
     @ quoted ''table_name'' @ '': '' @ quoted (py_str table)
     @ ''}'' @ [CHR 0x27]"

fun base_command_generator ::
  "string \<Rightarrow> (yaml \<times> table_data) list \<Rightarrow> path \<Rightarrow> world
     \<Rightarrow> (error + (yaml \<times> base_model_data) list) \<times> world" where
  "base_command_generator source_name [] destination_folder_path w = (Inr [], w)"
| "base_command_generator source_name ((table, mapping_data) # table_mappings)
       destination_folder_path w =
     (case os_makedirs destination_folder_path w of
        (Inl e, w1) \<Rightarrow> (Inl e, w1)
      | (Inr u, w1) \<Rightarrow>
        let with_command =
              (table,
               \<lparr>file_name = file_name mapping_data,
                base_command = base_cmd source_name table\<rparr>)
        in case base_command_generator source_name table_mappings destination_folder_path w1 of
             (Inl e, w2) \<Rightarrow> (Inl e, w2)
           | (Inr table_mappings_with_base_models, w2) \<Rightarrow>
               (Inr (with_command # table_mappings_with_base_models), w2))"

fun all_base_commands_generator ::
  "(string \<times> source_with_tables) list \<Rightarrow> world
     \<Rightarrow> (error + (string \<times> (yaml \<times> base_model_data) list) list) \<times> world" where
  "all_base_commands_generator [] w = (Inr [], w)"
| "all_base_commands_generator ((source_name, mapping_data) # source_table_mappings) w =
     (case base_command_generator source_name (tables mapping_data)
             (''models/'' @ source_name) w of
        (Inl e, w1) \<Rightarrow> (Inl e, w1)
      | (Inr source_base_model_commands, w1) \<Rightarrow>
        (case all_base_commands_generator source_table_mappings w1 of
           (Inl e, w2) \<Rightarrow> (Inl e, w2)
         | (Inr source_with_base_command_mappings, w2) \<Rightarrow>
             (Inr ((source_name, source_base_model_commands)
                   # source_with_base_command_mappings), w2)))"

subsection \<open>bash_run_and_make_files (lines 165 to 217)\<close>

text \<open>
  The body of the innermost loop is the same in both branches (lines 170 to 190 and 197
  to 217) up to the marker searched for, the command and the destination:
  skip when the policy is \<open>skip\<close> and the destination is a file; otherwise run the
  command, cut its output at the marker (\<open>stdout[stdout.find(marker):]\<close>), remove the
  escape sequences, and write the result, replacing under \<open>replace\<close> and appending
  under every other policy.
\<close>

definition clean_output :: "string \<Rightarrow> string \<Rightarrow> string" where
  "clean_output marker stdout =
     (let cleaned_prefix_result = str_slice_from stdout (str_find stdout marker)
      in re_sub_empty regex_ansi_escape_sequences cleaned_prefix_result)"

definition run_and_make_file ::
  "env \<Rightarrow> string \<Rightarrow> string \<Rightarrow> path \<Rightarrow> string \<Rightarrow> path \<Rightarrow> world \<Rightarrow> (error + unit) \<times> world" where
  "run_and_make_file ev marker command destination if_exists project_directory w =
     (if str_lower if_exists = ''skip'' \<and> os_path_isfile w destination then (Inr (), w)
      else
        case subprocess_run ev command project_directory w of
          (Inl e, w1) \<Rightarrow> (Inl e, w1)
        | (Inr stdout, w1) \<Rightarrow>
            let final_result = clean_output marker stdout;
                open_mode = (if str_lower if_exists = ''replace'' then Mode_w else Mode_a)
            in write_file destination open_mode final_result w1)"

fun run_source_mappings ::
  "env \<Rightarrow> (string \<times> source_data) list \<Rightarrow> string \<Rightarrow> path \<Rightarrow> world \<Rightarrow> (error + unit) \<times> world" where
  "run_source_mappings ev [] if_exists project_directory w = (Inr (), w)"
| "run_source_mappings ev ((source_name, command_data) # command_mappings) if_exists
       project_directory w =
     (case run_and_make_file ev ''version: 2'' (source_command command_data)
             (source_destination_path command_data) if_exists project_directory w of
        (Inl e, w1) \<Rightarrow> (Inl e, w1)
      | (Inr u, w1) \<Rightarrow> run_source_mappings ev command_mappings if_exists project_directory w1)"

fun run_table_mappings ::
  "env \<Rightarrow> (yaml \<times> base_model_data) list \<Rightarrow> string \<Rightarrow> path \<Rightarrow> world \<Rightarrow> (error + unit) \<times> world" where
  "run_table_mappings ev [] if_exists project_directory w = (Inr (), w)"
| "run_table_mappings ev ((table_name, table_data) # source_data) if_exists project_directory w =
     (case run_and_make_file ev ''with source as'' (base_command table_data)
             (file_name table_data) if_exists project_directory w of
        (Inl e, w1) \<Rightarrow> (Inl e, w1)
      | (Inr u, w1) \<Rightarrow> run_table_mappings ev source_data if_exists project_directory w1)"

fun run_base_mappings ::
  "env \<Rightarrow> (string \<times> (yaml \<times> base_model_data) list) list \<Rightarrow> string \<Rightarrow> path \<Rightarrow> world
     \<Rightarrow> (error + unit) \<times> world" where
  "run_base_mappings ev [] if_exists project_directory w = (Inr (), w)"
| "run_base_mappings ev ((source_name, source_data) # command_mappings) if_exists
       project_directory w =
     (case run_table_mappings ev source_data if_exists project_directory w of
        (Inl e, w1) \<Rightarrow> (Inl e, w1)
      | (Inr u, w1) \<Rightarrow> run_base_mappings ev command_mappings if_exists project_directory w1)"

text \<open>
  The two shapes of \<open>command_mappings\<close>: what \<open>source_cmd_generator\<close> returns and what
  \<open>all_base_commands_generator\<close> returns. A non-empty list of the shape that does not fit
  \<open>cmd_type\<close> ends in an \<open>AttributeError\<close> at its first element.
\<close>

datatype command_mappings =
    Source_mappings "(string \<times> source_data) list"
  | Base_mappings "(string \<times> (yaml \<times> base_model_data) list) list"

definition bash_run_and_make_files ::
  "env \<Rightarrow> string \<Rightarrow> command_mappings \<Rightarrow> string \<Rightarrow> path \<Rightarrow> world \<Rightarrow> (error + unit) \<times> world" where
  "bash_run_and_make_files ev cmd_type command_mappings if_exists project_directory w =
     (if cmd_type = ''src'' then
        (case command_mappings of
           Source_mappings ms \<Rightarrow> run_source_mappings ev ms if_exists project_directory w
         | Base_mappings ms \<Rightarrow> if ms = [] then (Inr (), w) else (Inl AttributeError, w))
      else
        (case command_mappings of
           Base_mappings ms \<Rightarrow> run_base_mappings ev ms if_exists project_directory w
         | Source_mappings ms \<Rightarrow> if ms = [] then (Inr (), w) else (Inl AttributeError, w)))"

subsection \<open>main (lines 220 to 248)\<close>

text \<open>
  The body of \<open>main\<close> with its four literal settings as parameters; a search for the
  project that never ends gives \<open>None\<close>.
\<close>

definition pipeline ::
  "env \<Rightarrow> string \<Rightarrow> string list \<Rightarrow> path option \<Rightarrow> string \<Rightarrow> world
     \<Rightarrow> ((error + unit) \<times> world) option" where
  "pipeline ev source_database_name source_schemas_list custom_dbt_project_path
       if_exists_behavior w =
     (case fetch_dbt_project w custom_dbt_project_path of
        None \<Rightarrow> None
      | Some (Inl e) \<Rightarrow> Some (Inl e, w)
      | Some (Inr dbt_project_directory) \<Rightarrow>
        Some
         (let models_directory = os_path_join dbt_project_directory ''models'' in
          case run_dbt_deps ev dbt_project_directory w of
            (Inl e, w1) \<Rightarrow> (Inl e, w1)
          | (Inr u, w1) \<Rightarrow>
          case source_cmd_generator source_database_name source_schemas_list True
                 models_directory w1 of
            (Inl e, w2) \<Rightarrow> (Inl e, w2)
          | (Inr source_command_mappings, w2) \<Rightarrow>
          case bash_run_and_make_files ev ''src'' (Source_mappings source_command_mappings)
                 if_exists_behavior dbt_project_directory w2 of
            (Inl e, w3) \<Rightarrow> (Inl e, w3)
          | (Inr u, w3) \<Rightarrow>
          case src_yml_scan ev source_command_mappings w3 of
            Inl e \<Rightarrow> (Inl e, w3)
          | Inr scanned_mappings \<Rightarrow>
          case all_base_commands_generator scanned_mappings w3 of
            (Inl e, w4) \<Rightarrow> (Inl e, w4)
          | (Inr source_with_base_command_mappings, w4) \<Rightarrow>
              bash_run_and_make_files ev ''base''
                (Base_mappings source_with_base_command_mappings)
                if_exists_behavior dbt_project_directory w4))"

definition main :: "env \<Rightarrow> world \<Rightarrow> ((error + unit) \<times> world) option" where
  "main ev w = pipeline ev ''lake'' [''fivetran_log'', ''sales''] None ''skip'' w"

section \<open>Plans as sequences of entries\<close>

text \<open>
  A plan entry is what one run of the innermost loop body of \<open>bash_run_and_make_files\<close>
  works on: the marker of its branch, the generation command and the destination path.
  \<open>plan_entries\<close> lists the entries of a plan in the order in which the loops visit
  them; \<open>shape_fits\<close> says that the plan has the shape the branch chosen by \<open>cmd_type\<close>
  expects; \<open>run_entries\<close> runs the loop body over a list of entries, stopping at the
  first exception.
\<close>

type_synonym plan_entry = "string \<times> string \<times> path"

fun plan_entries :: "command_mappings \<Rightarrow> plan_entry list" where
  "plan_entries (Source_mappings ms) =
     map (\<lambda>(source_name, command_data).
            (''version: 2'', source_command command_data, source_destination_path command_data)) ms"
| "plan_entries (Base_mappings ms) =
     concat (map (\<lambda>(source_name, source_data).
                    map (\<lambda>(table_name, table_data).
                           (''with source as'', base_command table_data, file_name table_data))
                        source_data) ms)"

definition shape_fits :: "string \<Rightarrow> command_mappings \<Rightarrow> bool" where
  "shape_fits cmd_type command_mappings =
     (case command_mappings of
        Source_mappings ms \<Rightarrow> cmd_type = ''src''
      | Base_mappings ms \<Rightarrow> cmd_type \<noteq> ''src'')"

fun run_entries ::
  "env \<Rightarrow> plan_entry list \<Rightarrow> string \<Rightarrow> path \<Rightarrow> world \<Rightarrow> (error + unit) \<times> world" where
  "run_entries ev [] if_exists project_directory w = (Inr (), w)"
| "run_entries ev ((marker, command, destination) # entries) if_exists project_directory w =
     (case run_and_make_file ev marker command destination if_exists project_directory w of
        (Inl e, w1) \<Rightarrow> (Inl e, w1)
      | (Inr u, w1) \<Rightarrow> run_entries ev entries if_exists project_directory w1)"

text \<open>Running the same step a number of times in a row, stopping at the first exception.\<close>

primrec repeat_run ::
  "nat \<Rightarrow> (world \<Rightarrow> (error + unit) \<times> world) \<Rightarrow> world \<Rightarrow> (error + unit) \<times> world" where
  "repeat_run 0 step w = (Inr (), w)"
| "repeat_run (Suc n) step w =
     (case step w of (Inl e, w1) \<Rightarrow> (Inl e, w1) | (Inr u, w1) \<Rightarrow> repeat_run n step w1)"

section \<open>Searching and slicing\<close>

lemma str_find_range: "str_find s sub = - 1 \<or> 0 \<le> str_find s sub"
  by (induction s) (auto simp: Let_def)

lemma str_find_absent: "\<not> str_contains s sub \<Longrightarrow> str_find s sub = - 1"
  by (induction s) (auto simp: Let_def)

lemma str_slice_from_minus_one: "str_slice_from s (- 1) = (if s = [] then [] else [last s])"
proof (cases s rule: rev_cases)
  case Nil
  then show ?thesis by (simp add: str_slice_from_def)
next
  case (snoc ys y)
  then show ?thesis by (simp add: str_slice_from_def Let_def nat_add_distrib)
qed

lemma str_slice_from_length: "str_slice_from (xs @ ys) (int (length xs)) = ys"
  by (simp add: str_slice_from_def Let_def)

lemma no_straddle:
  assumes "m \<noteq> []" "hd m \<notin> set (tl m)" "prefix m (xs @ m @ r)" "xs \<noteq> []"
  shows "prefix m xs"
proof -
  from assms(3) have "prefix m xs \<or> (\<exists>us. m = xs @ us \<and> prefix us (m @ r))"
    by (simp only: prefix_append)
  then consider "prefix m xs" | us where "m = xs @ us" "prefix us (m @ r)"
    by blast
  then show ?thesis
  proof cases
    case 1
    then show ?thesis .
  next
    case 2
    show ?thesis
    proof (cases "us = []")
      case True
      with 2 show ?thesis by simp
    next
      case False
      from False obtain u us' where us: "us = u # us'"
        by (cases us) auto
      from assms(1) obtain a m' where m: "m = a # m'"
        by (cases m) auto
      from 2(2) have "hd us = hd m"
        unfolding us m by simp
      moreover from 2(1) assms(4) have "tl m = tl xs @ us"
        by simp
      moreover from False have "hd us \<in> set us"
        by simp
      ultimately have "hd m \<in> set (tl m)"
        by simp
      with assms(2) show ?thesis by simp
    qed
  qed
qed

lemma str_find_after_banner:
  assumes "m \<noteq> []" "hd m \<notin> set (tl m)" "\<not> str_contains banner m"
  shows "str_find (banner @ m @ r) m = int (length banner)"
  using assms(3)
proof (induction banner)
  case Nil
  from assms(1) show ?case by (cases m) simp_all
next
  case (Cons b bs)
  then have nb: "\<not> prefix m (b # bs)" and nbs: "\<not> str_contains bs m"
    by simp_all
  from nb no_straddle [OF assms(1,2), of "b # bs" r] have "\<not> prefix m ((b # bs) @ m @ r)"
    by blast
  then have "\<not> prefix m (b # (bs @ m @ r))"
    by simp
  with Cons.IH [OF nbs] show ?case
    by (simp add: Let_def)
qed

lemma clean_output_after_banner:
  assumes "\<not> str_contains banner ''version: 2''"
  shows "clean_output ''version: 2'' (banner @ ''version: 2'' @ r)
         = re_sub_empty regex_ansi_escape_sequences (''version: 2'' @ r)"
proof -
  have "str_find (banner @ ''version: 2'' @ r) ''version: 2'' = int (length banner)"
    by (rule str_find_after_banner) (use assms in simp_all)
  then show ?thesis
    by (simp only: clean_output_def str_slice_from_length Let_def)
qed

lemma re_sub_empty_single: "re_sub_empty regex_ansi_escape_sequences [c] = [c]"
  by (simp add: regex_ansi_escape_sequences_def re_match_def)


section \<open>The executor, entry by entry\<close>

lemma run_and_make_file_skip:
  "str_lower if_exists = ''skip'' \<Longrightarrow> os_path_isfile w destination \<Longrightarrow>
   run_and_make_file ev marker command destination if_exists project_directory w = (Inr (), w)"
  by (simp add: run_and_make_file_def)

lemma run_and_make_file_run:
  assumes "\<not> (str_lower if_exists = ''skip'' \<and> os_path_isfile w destination)"
    and "run_process ev command project_directory w = (returncode, stdout)"
  shows "run_and_make_file ev marker command destination if_exists project_directory w =
     (if returncode \<noteq> 0
      then (Inl (CalledProcessError returncode),
            w\<lparr>invoked := invoked w @ [(command, project_directory)]\<rparr>)
      else write_file destination
             (if str_lower if_exists = ''replace'' then Mode_w else Mode_a)
             (clean_output marker stdout)
             (w\<lparr>invoked := invoked w @ [(command, project_directory)]\<rparr>))"
  using assms by (auto simp: run_and_make_file_def subprocess_run_def Let_def)

lemma run_entries_append:
  "run_entries ev (xs @ ys) if_exists pd w =
     (case run_entries ev xs if_exists pd w of
        (Inl e, w1) \<Rightarrow> (Inl e, w1)
      | (Inr u, w1) \<Rightarrow> run_entries ev ys if_exists pd w1)"
  by (induction xs arbitrary: w) (auto split: prod.splits sum.splits)

lemma run_source_mappings_entries:
  "run_source_mappings ev ms if_exists pd w =
   run_entries ev (plan_entries (Source_mappings ms)) if_exists pd w"
  by (induction ms arbitrary: w) (auto split: prod.splits sum.splits)

lemma run_table_mappings_entries:
  "run_table_mappings ev ts if_exists pd w =
   run_entries ev
     (map (\<lambda>(table_name, table_data).
             (''with source as'', base_command table_data, file_name table_data)) ts)
     if_exists pd w"
  by (induction ts arbitrary: w) (auto split: prod.splits sum.splits)

lemma run_base_mappings_entries:
  "run_base_mappings ev ms if_exists pd w =
   run_entries ev (plan_entries (Base_mappings ms)) if_exists pd w"
  by (induction ms arbitrary: w)
     (auto simp: run_table_mappings_entries run_entries_append split: prod.splits sum.splits)

lemma bash_run_and_make_files_entries:
  "shape_fits cmd_type cm \<Longrightarrow>
   bash_run_and_make_files ev cmd_type cm if_exists pd w =
   run_entries ev (plan_entries cm) if_exists pd w"
  by (cases cm)
     (simp_all add: shape_fits_def bash_run_and_make_files_def run_source_mappings_entries
        run_base_mappings_entries)

lemma str_lower_skip: "str_lower ''skip'' = ''skip''"
  by (simp add: str_lower_def char_lower_def)

lemma str_lower_append: "str_lower ''append'' = ''append''"
  by (simp add: str_lower_def char_lower_def)

lemma str_lower_replace: "str_lower ''replace'' = ''replace''"
  by (simp add: str_lower_def char_lower_def)

lemma clean_output_absent:
  assumes "\<not> str_contains stdout marker"
  shows "clean_output marker stdout = (if stdout = [] then [] else [last stdout])"
  using assms
  by (simp add: clean_output_def str_find_absent str_slice_from_minus_one re_sub_empty_single
        del: re_sub_empty.simps(2))

lemma plan_entries_marker:
  "shape_fits cmd_type cm \<Longrightarrow> (marker, command, destination) \<in> set (plan_entries cm) \<Longrightarrow>
   marker = (if cmd_type = ''src'' then ''version: 2'' else ''with source as'')"
  by (cases cm) (auto simp: shape_fits_def)

lemma re_sub_empty_no_match: "\<not> re_search r s \<Longrightarrow> re_sub_empty r s = s"
  by (induction s) auto

text \<open>
  Two policies are treated alike when they agree on the two tests the program makes:
  whether the lower-cased policy is \<open>skip\<close>, and whether it is \<open>replace\<close>.
\<close>

definition same_policy :: "string \<Rightarrow> string \<Rightarrow> bool" where
  "same_policy p q =
     ((str_lower p = ''skip'') = (str_lower q = ''skip'')
      \<and> (str_lower p = ''replace'') = (str_lower q = ''replace''))"

lemma run_and_make_file_same_policy:
  "same_policy p q \<Longrightarrow>
   run_and_make_file ev marker command destination p pd w =
   run_and_make_file ev marker command destination q pd w"
  by (simp add: run_and_make_file_def same_policy_def)

lemma run_entries_same_policy:
  "same_policy p q \<Longrightarrow> run_entries ev entries p pd w = run_entries ev entries q pd w"
proof (induction entries arbitrary: w)
  case Nil
  show ?case by simp
next
  case (Cons entry entries)
  obtain marker command destination where entry: "entry = (marker, command, destination)"
    by (cases entry) auto
  show ?case
    unfolding entry
    by (simp add: run_and_make_file_same_policy [OF Cons.prems] Cons.IH [OF Cons.prems]
          split: prod.splits sum.splits)
qed

lemma bash_run_and_make_files_same_policy:
  assumes "same_policy p q"
  shows "bash_run_and_make_files ev cmd_type cm p pd w =
         bash_run_and_make_files ev cmd_type cm q pd w"
proof (cases "shape_fits cmd_type cm")
  case True
  then show ?thesis
    by (simp add: bash_run_and_make_files_entries run_entries_same_policy [OF assms])
next
  case False
  then show ?thesis
    by (cases cm) (auto simp: shape_fits_def bash_run_and_make_files_def)
qed

section \<open>Contents of files\<close>

text \<open>
  The text of a file, empty when there is no such file; and the condition under which
  \<open>open\<close> for writing succeeds: the path is not a directory and its directory exists.
\<close>

definition file_contents :: "world \<Rightarrow> path \<Rightarrow> string" where
  "file_contents w p = (case files w (resolve w p) of None \<Rightarrow> [] | Some text \<Rightarrow> text)"

definition writable :: "world \<Rightarrow> path \<Rightarrow> bool" where
  "writable w p = (resolve w p \<notin> dirs w \<and> os_path_dirname (resolve w p) \<in> dirs w)"

lemma write_file_writable:
  "writable w p \<Longrightarrow>
   write_file p mode text w =
     (Inr (), w\<lparr>files := (files w)(resolve w p \<mapsto>
        (case mode of Mode_w \<Rightarrow> text | Mode_a \<Rightarrow> file_contents w p @ text))\<rparr>)"
  by (auto simp: writable_def write_file_def file_contents_def Let_def
      split: open_mode.splits option.splits)

lemma resolve_cong: "cwd w' = cwd w \<Longrightarrow> resolve w' p = resolve w p"
  by (simp add: resolve_def)

lemma run_and_make_file_ok:
  assumes "\<not> (str_lower if_exists = ''skip'' \<and> os_path_isfile w destination)"
    and "run_process ev command pd w = (0, stdout)"
    and "writable w destination"
  shows "run_and_make_file ev marker command destination if_exists pd w =
     (Inr (), w\<lparr>invoked := invoked w @ [(command, pd)],
               files := (files w)(resolve w destination \<mapsto>
                 (if str_lower if_exists = ''replace'' then clean_output marker stdout
                  else file_contents w destination @ clean_output marker stdout))\<rparr>)"
proof -
  let ?w1 = "w\<lparr>invoked := invoked w @ [(command, pd)]\<rparr>"
  have "writable ?w1 destination"
    using assms(3) by (simp add: writable_def resolve_def)
  then show ?thesis
    using run_and_make_file_run [OF assms(1,2), of marker]
    by (simp add: write_file_writable file_contents_def resolve_def)
qed

lemma single_entry_step:
  assumes "shape_fits cmd_type cm" "plan_entries cm = [(marker, command, destination)]"
  shows "bash_run_and_make_files ev cmd_type cm if_exists pd w =
         run_and_make_file ev marker command destination if_exists pd w"
  by (simp add: bash_run_and_make_files_entries [OF assms(1)] assms(2) split: prod.splits sum.splits)

lemma repeat_run_append:
  assumes "str_lower if_exists \<noteq> ''skip''" "str_lower if_exists \<noteq> ''replace''"
    and "\<forall>w'. run_process ev command pd w' = (0, stdout)"
    and "writable w destination"
  shows "\<exists>w'. repeat_run n (run_and_make_file ev marker command destination if_exists pd) w = (Inr (), w')
           \<and> file_contents w' destination
               = file_contents w destination @ concat (replicate n (clean_output marker stdout))"
  using assms(4)
proof (induction n arbitrary: w)
  case 0
  show ?case by simp
next
  case (Suc n)
  let ?c = "clean_output marker stdout"
  let ?w1 = "w\<lparr>invoked := invoked w @ [(command, pd)],
               files := (files w)(resolve w destination \<mapsto> file_contents w destination @ ?c)\<rparr>"
  have step: "run_and_make_file ev marker command destination if_exists pd w = (Inr (), ?w1)"
    using run_and_make_file_ok [of if_exists w destination ev command pd stdout marker]
      assms(1,2,3) Suc.prems by simp
  have w1: "writable ?w1 destination"
    using Suc.prems by (simp add: writable_def resolve_def)
  have c1: "file_contents ?w1 destination = file_contents w destination @ ?c"
    by (simp add: file_contents_def resolve_def)
  from Suc.IH [OF w1] obtain w' where
    "repeat_run n (run_and_make_file ev marker command destination if_exists pd) ?w1 = (Inr (), w')"
    "file_contents w' destination = file_contents ?w1 destination @ concat (replicate n ?c)"
    by blast
  with step c1 show ?case
    by simp
qed

lemma repeat_run_skip_existing:
  assumes "str_lower if_exists = ''skip''" "os_path_isfile w destination"
  shows "repeat_run n (run_and_make_file ev marker command destination if_exists pd) w = (Inr (), w)"
  by (induction n) (simp_all add: run_and_make_file_skip [OF assms])

lemma repeat_run_skip_fresh:
  assumes "str_lower if_exists = ''skip''" "\<not> os_path_isfile w destination"
    and "run_process ev command pd w = (0, stdout)"
    and "writable w destination"
  shows "\<exists>w'. repeat_run (Suc n) (run_and_make_file ev marker command destination if_exists pd) w
             = (Inr (), w')
           \<and> file_contents w' destination = clean_output marker stdout"
proof -
  let ?c = "clean_output marker stdout"
  let ?w1 = "w\<lparr>invoked := invoked w @ [(command, pd)],
               files := (files w)(resolve w destination \<mapsto> file_contents w destination @ ?c)\<rparr>"
  have step: "run_and_make_file ev marker command destination if_exists pd w = (Inr (), ?w1)"
    using run_and_make_file_ok [of if_exists w destination ev command pd stdout marker]
      assms by simp
  have "file_contents w destination = []"
    using assms(2) by (simp add: file_contents_def os_path_isfile_def)
  then have c1: "file_contents ?w1 destination = ?c"
    by (simp add: file_contents_def resolve_def)
  have "os_path_isfile ?w1 destination"
    by (simp add: os_path_isfile_def resolve_def)
  from repeat_run_skip_existing [OF assms(1) this]
  have "repeat_run n (run_and_make_file ev marker command destination if_exists pd) ?w1 = (Inr (), ?w1)" .
  with step c1 show ?thesis
    by simp
qed

section \<open>Making directories\<close>

text \<open>
  \<open>makedirs_ok\<close>: the directory exists, or no file has its name or the name of one of
  its ancestors, so that \<open>os.makedirs\<close> succeeds.
\<close>

definition makedirs_ok :: "world \<Rightarrow> path \<Rightarrow> bool" where
  "makedirs_ok w name =
     (let a = resolve w name in
      a \<in> dirs w \<or> (files w a = None \<and> \<not> list_ex (\<lambda>d. files w d \<noteq> None) (parents a)))"

lemma os_makedirs_existing: "resolve w name \<in> dirs w \<Longrightarrow> os_makedirs name w = (Inr (), w)"
  by (simp add: os_makedirs_def)

lemma os_makedirs_frame:
  assumes "os_makedirs name w = (r, w')"
  shows "cwd w' = cwd w \<and> files w' = files w \<and> invoked w' = invoked w \<and> dirs w \<subseteq> dirs w'"
  using assms by (auto simp: os_makedirs_def Let_def split: if_splits)

lemma os_makedirs_made:
  assumes "os_makedirs name w = (Inr u, w')"
  shows "resolve w name \<in> dirs w'"
  using assms by (auto simp: os_makedirs_def Let_def split: if_splits)

lemma os_makedirs_ok:
  assumes "makedirs_ok w name"
  shows "\<exists>w'. os_makedirs name w = (Inr (), w')"
  using assms by (auto simp: os_makedirs_def makedirs_ok_def Let_def)

lemma makedirs_ok_mono:
  assumes "makedirs_ok w name" "cwd w' = cwd w" "files w' = files w" "dirs w \<subseteq> dirs w'"
  shows "makedirs_ok w' name"
  using assms by (auto simp: makedirs_ok_def resolve_def Let_def)

section \<open>The source plan\<close>

text \<open>The entry that \<open>source_cmd_generator\<close> builds for one source (lines 95 to 107).\<close>

definition source_entry :: "string \<Rightarrow> bool \<Rightarrow> path \<Rightarrow> string \<Rightarrow> string \<times> source_data" where
  "source_entry db_name generate_columns root source =
     (source,
      \<lparr>destination_folder = os_path_join root source,
       destination_file_name = ''_src_'' @ source @ ''.yml'',
       source_destination_path =
         os_path_join (os_path_join root source) (''_src_'' @ source @ ''.yml''),
       source_command = src_cmd source db_name generate_columns\<rparr>)"

lemma source_cmd_generator_result:
  assumes "source_cmd_generator db sources gc root w = (Inr ms, w')"
  shows "ms = map (source_entry db gc root) sources
         \<and> cwd w' = cwd w \<and> files w' = files w \<and> invoked w' = invoked w \<and> dirs w \<subseteq> dirs w'
         \<and> (\<forall>s \<in> set sources. resolve w (os_path_join root s) \<in> dirs w')"
  using assms
proof (induction sources arbitrary: w ms)
  case Nil
  then show ?case by simp
next
  case (Cons s sources)
  from Cons.prems obtain w1 ms1 where
    m: "os_makedirs (os_path_join root s) w = (Inr (), w1)"
    and g: "source_cmd_generator db sources gc root w1 = (Inr ms1, w')"
    and ms: "ms = source_entry db gc root s # ms1"
    by (auto simp: Let_def source_entry_def split: prod.splits sum.splits)
  note f = os_makedirs_frame [OF m] os_makedirs_made [OF m]
  note ih = Cons.IH [OF g]
  from f ih have "resolve w (os_path_join root s) \<in> dirs w'"
    by blast
  moreover from f ih have "\<forall>t \<in> set sources. resolve w (os_path_join root t) \<in> dirs w'"
    by (simp add: resolve_def)
  ultimately show ?case
    using f ih ms by auto
qed

lemma source_cmd_generator_ok:
  assumes "\<forall>s \<in> set sources. makedirs_ok w (os_path_join root s)"
  shows "\<exists>w'. source_cmd_generator db sources gc root w
               = (Inr (map (source_entry db gc root) sources), w')"
  using assms
proof (induction sources arbitrary: w)
  case Nil
  show ?case by simp
next
  case (Cons s sources)
  from Cons.prems os_makedirs_ok [of w "os_path_join root s"] obtain w1 where
    m: "os_makedirs (os_path_join root s) w = (Inr (), w1)"
    by auto
  note f = os_makedirs_frame [OF m]
  from Cons.prems f have "\<forall>t \<in> set sources. makedirs_ok w1 (os_path_join root t)"
    using makedirs_ok_mono [of w _ w1] by simp
  from Cons.IH [OF this] obtain w' where
    "source_cmd_generator db sources gc root w1 = (Inr (map (source_entry db gc root) sources), w')"
    by blast
  with m show ?case
    by (simp add: Let_def source_entry_def)
qed

lemma source_cmd_generator_existing:
  assumes "\<forall>s \<in> set sources. resolve w (os_path_join root s) \<in> dirs w"
  shows "source_cmd_generator db sources gc root w
         = (Inr (map (source_entry db gc root) sources), w)"
  using assms
  by (induction sources) (simp_all add: os_makedirs_existing Let_def source_entry_def)

section \<open>Destination paths\<close>

text \<open>The destination path of a source, as line 100 computes it.\<close>

definition src_path :: "path \<Rightarrow> string \<Rightarrow> path" where
  "src_path root source = os_path_join (os_path_join root source) (''_src_'' @ source @ ''.yml'')"

lemma src_path_shape:
  assumes "\<not> startswith_sep s"
  shows "\<exists>r y. src_path root s = r @ s @ y @ ''_src_'' @ s @ ''.yml'' \<and> length y \<le> 1
           \<and> r = (if root = [] \<or> endswith_sep root then root else root @ ''/'')"
proof -
  let ?r = "if root = [] \<or> endswith_sep root then root else root @ ''/''"
  have j: "os_path_join root s = ?r @ s"
    using assms by (simp add: os_path_join_def)
  have "\<not> startswith_sep (''_src_'' @ s @ ''.yml'')"
    by (simp add: startswith_sep_def)
  then have "src_path root s = (?r @ s) @ (if ?r @ s = [] \<or> endswith_sep (?r @ s) then [] else ''/'')
               @ ''_src_'' @ s @ ''.yml''"
    unfolding src_path_def j by (simp add: os_path_join_def)
  then show ?thesis
    by (intro exI [of _ ?r] exI [of _ "if ?r @ s = [] \<or> endswith_sep (?r @ s) then [] else ''/''"])
       simp
qed

lemma src_path_inj:
  assumes "\<not> startswith_sep s1" "\<not> startswith_sep s2" "src_path root s1 = src_path root s2"
  shows "s1 = s2"
proof -
  from src_path_shape [OF assms(1), of root] obtain r y1 where
    1: "src_path root s1 = r @ s1 @ y1 @ ''_src_'' @ s1 @ ''.yml''" "length y1 \<le> 1"
      "r = (if root = [] \<or> endswith_sep root then root else root @ ''/'')"
    by blast
  from src_path_shape [OF assms(2), of root] obtain r' y2 where
    2: "src_path root s2 = r' @ s2 @ y2 @ ''_src_'' @ s2 @ ''.yml''" "length y2 \<le> 1"
      "r' = (if root = [] \<or> endswith_sep root then root else root @ ''/'')"
    by blast
  from 1(3) 2(3) have r: "r' = r"
    by simp
  from assms(3) have eq: "s1 @ y1 @ ''_src_'' @ s1 @ ''.yml'' = s2 @ y2 @ ''_src_'' @ s2 @ ''.yml''"
    unfolding 1(1) 2(1) r by simp
  then have "length (s1 @ y1 @ ''_src_'' @ s1 @ ''.yml'') = length (s2 @ y2 @ ''_src_'' @ s2 @ ''.yml'')"
    by (rule arg_cong)
  then have "2 * length s1 + length y1 = 2 * length s2 + length y2"
    by simp
  with 1(2) 2(2) have "length s1 = length s2"
    by arith
  with eq show ?thesis
    using append_eq_append_conv [of s1 s2 "y1 @ ''_src_'' @ s1 @ ''.yml''" "y2 @ ''_src_'' @ s2 @ ''.yml''"]
    by blast
qed

lemma src_path_literal:
  assumes "root \<noteq> []" "\<not> endswith_sep root" "s \<noteq> []" "\<not> startswith_sep s" "\<not> endswith_sep s"
  shows "src_path root s = root @ ''/'' @ s @ ''/_src_'' @ s @ ''.yml''"
  using assms
  by (simp add: src_path_def os_path_join_def startswith_sep_def endswith_sep_def)


section \<open>Effects of the executor on the world\<close>

lemma os_makedirs_upper:
  assumes "os_makedirs name w = (r, w')"
  shows "dirs w' \<subseteq> dirs w \<union> insert (resolve w name) (set (parents (resolve w name)))"
  using assms by (auto simp: os_makedirs_def Let_def split: if_splits)

lemma write_file_frame:
  assumes "write_file p mode text w = (r, w')"
  shows "cwd w' = cwd w \<and> dirs w' = dirs w \<and> invoked w' = invoked w
         \<and> (\<forall>a. a \<noteq> resolve w p \<longrightarrow> files w' a = files w a)
         \<and> dom (files w) \<subseteq> dom (files w')
         \<and> (r = Inr () \<longrightarrow> os_path_isfile w' p)"
  using assms
  by (auto simp: write_file_def Let_def os_path_isfile_def resolve_def split: if_splits)

lemma subprocess_run_frame:
  assumes "subprocess_run ev command pd w = (r, w')"
  shows "cwd w' = cwd w \<and> dirs w' = dirs w \<and> files w' = files w
         \<and> invoked w' = invoked w @ [(command, pd)]"
  using assms by (auto simp: subprocess_run_def Let_def split: prod.splits if_splits)

lemma run_and_make_file_frame:
  assumes "run_and_make_file ev marker command destination if_exists pd w = (r, w')"
  shows "cwd w' = cwd w \<and> dirs w' = dirs w
         \<and> (\<forall>a. a \<noteq> resolve w destination \<longrightarrow> files w' a = files w a)
         \<and> dom (files w) \<subseteq> dom (files w')
         \<and> (r = Inr () \<longrightarrow> os_path_isfile w' destination)"
proof (cases "str_lower if_exists = ''skip'' \<and> os_path_isfile w destination")
  case True
  with assms show ?thesis
    by (auto simp: run_and_make_file_def)
next
  case False
  obtain r1 w1 where s: "subprocess_run ev command pd w = (r1, w1)"
    by (cases "subprocess_run ev command pd w") auto
  note f1 = subprocess_run_frame [OF s]
  show ?thesis
  proof (cases r1)
    case (Inl e)
    with assms False s f1 show ?thesis
      by (auto simp: run_and_make_file_def)
  next
    case (Inr stdout)
    with assms False s have
      "write_file destination (if str_lower if_exists = ''replace'' then Mode_w else Mode_a)
         (clean_output marker stdout) w1 = (r, w')"
      by (auto simp: run_and_make_file_def Let_def)
    from write_file_frame [OF this] f1 show ?thesis
      by (auto simp: resolve_def os_path_isfile_def)
  qed
qed

text \<open>The destination of a plan entry.\<close>

definition entry_destination :: "plan_entry \<Rightarrow> path" where
  "entry_destination entry = snd (snd entry)"

lemma run_entries_frame:
  assumes "run_entries ev entries if_exists pd w = (r, w')"
  shows "cwd w' = cwd w \<and> dirs w' = dirs w
         \<and> (\<forall>a. a \<notin> resolve w ` entry_destination ` set entries \<longrightarrow> files w' a = files w a)
         \<and> dom (files w) \<subseteq> dom (files w')"
  using assms
proof (induction entries arbitrary: w)
  case Nil
  then show ?case by simp
next
  case (Cons entry entries)
  obtain marker command destination where e: "entry = (marker, command, destination)"
    by (cases entry) auto
  obtain r1 w1 where s: "run_and_make_file ev marker command destination if_exists pd w = (r1, w1)"
    by (cases "run_and_make_file ev marker command destination if_exists pd w") auto
  note f1 = run_and_make_file_frame [OF s]
  show ?case
  proof (cases r1)
    case (Inl err)
    with Cons.prems e s f1 show ?thesis
      by (auto simp: entry_destination_def)
  next
    case (Inr u)
    with Cons.prems e s have "run_entries ev entries if_exists pd w1 = (r, w')"
      by simp
    from Cons.IH [OF this] f1 show ?thesis
      unfolding e by (simp add: entry_destination_def resolve_def) blast
  qed
qed

lemma run_entries_all_files:
  assumes "run_entries ev entries if_exists pd w = (Inr (), w')"
  shows "\<forall>entry \<in> set entries. os_path_isfile w' (entry_destination entry)"
  using assms
proof (induction entries arbitrary: w)
  case Nil
  then show ?case by simp
next
  case (Cons entry entries)
  obtain marker command destination where e: "entry = (marker, command, destination)"
    by (cases entry) auto
  from Cons.prems obtain w1 where
    s: "run_and_make_file ev marker command destination if_exists pd w = (Inr (), w1)"
    and t: "run_entries ev entries if_exists pd w1 = (Inr (), w')"
    unfolding e by (auto split: prod.splits sum.splits)
  from run_and_make_file_frame [OF s] have "os_path_isfile w1 destination"
    by simp
  moreover from run_entries_frame [OF t] have "cwd w' = cwd w1" "dom (files w1) \<subseteq> dom (files w')"
    by simp_all
  ultimately have "os_path_isfile w' destination"
    by (auto simp: os_path_isfile_def resolve_def)
  with Cons.IH [OF t] show ?case
    unfolding e by (simp add: entry_destination_def)
qed

lemma run_entries_all_skipped:
  assumes "str_lower if_exists = ''skip''"
    and "\<forall>entry \<in> set entries. os_path_isfile w (entry_destination entry)"
  shows "run_entries ev entries if_exists pd w = (Inr (), w)"
  using assms(2)
proof (induction entries)
  case Nil
  show ?case by simp
next
  case (Cons entry entries)
  obtain marker command destination where e: "entry = (marker, command, destination)"
    by (cases entry) auto
  from Cons.prems have "os_path_isfile w destination"
    unfolding e by (simp add: entry_destination_def)
  from run_and_make_file_skip [OF assms(1) this] Cons show ?case
    unfolding e by simp
qed

section \<open>The scan\<close>

lemma map_err_Inr:
  "map_err f xs = Inr ys \<Longrightarrow> list_all2 (\<lambda>x y. f x = Inr y) xs ys"
  by (induction xs arbitrary: ys) (auto split: sum.splits)

lemma list_all2_right_mem:
  "list_all2 P xs ys \<Longrightarrow> y \<in> set ys \<Longrightarrow> \<exists>x \<in> set xs. P x y"
  by (induction rule: list_all2_induct) auto

lemma map_err_cong:
  "(\<And>x. x \<in> set xs \<Longrightarrow> f x = g x) \<Longrightarrow> map_err f xs = map_err g xs"
  by (induction xs) (auto split: sum.splits)

lemma table_mapping_result:
  assumes "table_mapping source_name folder d = Inr (t, td)"
  shows "file_name td = os_path_join folder (''stg_'' @ source_name @ ''__'' @ py_str t @ ''.sql'')"
  using assms by (auto simp: table_mapping_def split: sum.splits if_splits)

lemma scan_source_result:
  assumes "scan_source ev w (s, d) = Inr (s', md)"
  shows "s' = s \<and> destination_folder md = destination_folder d
         \<and> source_destination_path md = source_destination_path d
         \<and> (\<forall>(t, td) \<in> set (tables md).
               file_name td
               = os_path_join (destination_folder d) (''stg_'' @ s @ ''__'' @ py_str t @ ''.sql''))"
proof -
  from assms have "\<exists>tables_list.
      map_err (table_mapping s (destination_folder d)) tables_list = Inr (tables md)
      \<and> s' = s \<and> destination_folder md = destination_folder d
      \<and> source_destination_path md = source_destination_path d"
    by (clarsimp simp: scan_source_def split: sum.split_asm) blast
  then obtain tables_list where
    m: "map_err (table_mapping s (destination_folder d)) tables_list = Inr (tables md)"
    and r: "s' = s" "destination_folder md = destination_folder d"
      "source_destination_path md = source_destination_path d"
    by blast
  have "\<forall>(t, td) \<in> set (tables md).
          file_name td = os_path_join (destination_folder d) (''stg_'' @ s @ ''__'' @ py_str t @ ''.sql'')"
  proof (clarify)
    fix t td
    assume "(t, td) \<in> set (tables md)"
    with list_all2_right_mem [OF map_err_Inr [OF m]] obtain x where
      "table_mapping s (destination_folder d) x = Inr (t, td)"
      by blast
    then show "file_name td
        = os_path_join (destination_folder d) (''stg_'' @ s @ ''__'' @ py_str t @ ''.sql'')"
      by (rule table_mapping_result)
  qed
  with r show ?thesis
    by simp
qed

lemma read_file_cong:
  assumes "files w' (resolve w' p) = files w (resolve w p)" "files w (resolve w p) \<noteq> None"
  shows "read_file w' p = read_file w p"
  using assms by (auto simp: read_file_def Let_def)

lemma scan_source_cong:
  assumes "files w' (resolve w' (source_destination_path d))
           = files w (resolve w (source_destination_path d))"
    and "files w (resolve w (source_destination_path d)) \<noteq> None"
  shows "scan_source ev w' (s, d) = scan_source ev w (s, d)"
  by (simp add: scan_source_def read_file_cong [OF assms])

lemma src_yml_scan_cong:
  assumes "\<forall>(s, d) \<in> set ms.
             files w' (resolve w' (source_destination_path d))
             = files w (resolve w (source_destination_path d))
             \<and> files w (resolve w (source_destination_path d)) \<noteq> None"
  shows "src_yml_scan ev ms w' = src_yml_scan ev ms w"
  unfolding src_yml_scan_def
proof (rule map_err_cong)
  fix x
  assume "x \<in> set ms"
  with assms show "scan_source ev w' x = scan_source ev w x"
    by (cases x) (auto intro: scan_source_cong)
qed

lemma src_yml_scan_result:
  assumes "src_yml_scan ev ms w = Inr scanned" "(s, md) \<in> set scanned"
  shows "\<exists>d. (s, d) \<in> set ms \<and> destination_folder md = destination_folder d
           \<and> (\<forall>(t, td) \<in> set (tables md).
                 file_name td
                 = os_path_join (destination_folder d) (''stg_'' @ s @ ''__'' @ py_str t @ ''.sql''))"
proof -
  from list_all2_right_mem [OF map_err_Inr [OF assms(1) [unfolded src_yml_scan_def]] assms(2)]
  obtain m where m: "m \<in> set ms" "scan_source ev w m = Inr (s, md)"
    by blast
  obtain s0 d where md: "m = (s0, d)"
    by (cases m) auto
  from scan_source_result [OF m(2) [unfolded md]] m(1) md show ?thesis
    by auto
qed

section \<open>The base-model plan\<close>

text \<open>
  What \<open>base_command_generator\<close> makes of one scanned table, what
  \<open>all_base_commands_generator\<close> makes of the scanned sources, and the directory that the
  latter has made for a source: \<open>models/<source_name>\<close>, resolved against the working
  directory.
\<close>

definition base_entry :: "string \<Rightarrow> yaml \<times> table_data \<Rightarrow> yaml \<times> base_model_data" where
  "base_entry source_name scanned_table =
     (fst scanned_table,
      \<lparr>file_name = file_name (snd scanned_table),
       base_command = base_cmd source_name (fst scanned_table)\<rparr>)"

definition base_plan ::
  "(string \<times> source_with_tables) list \<Rightarrow> (string \<times> (yaml \<times> base_model_data) list) list" where
  "base_plan scanned = map (\<lambda>(s, md). (s, map (base_entry s) (tables md))) scanned"

lemma base_command_generator_result:
  assumes "base_command_generator s ts dfp w = (Inr out, w')"
  shows "out = map (base_entry s) ts
         \<and> cwd w' = cwd w \<and> files w' = files w \<and> invoked w' = invoked w \<and> dirs w \<subseteq> dirs w'
         \<and> dirs w' \<subseteq> dirs w \<union> insert (resolve w dfp) (set (parents (resolve w dfp)))
         \<and> (ts \<noteq> [] \<longrightarrow> resolve w dfp \<in> dirs w')"
  using assms
proof (induction ts arbitrary: w out)
  case Nil
  then show ?case by auto
next
  case (Cons tm ts)
  obtain t td where tm: "tm = (t, td)"
    by (cases tm) auto
  from Cons.prems obtain w1 out1 where
    m: "os_makedirs dfp w = (Inr (), w1)"
    and g: "base_command_generator s ts dfp w1 = (Inr out1, w')"
    and out: "out = base_entry s (t, td) # out1"
    unfolding tm by (auto simp: Let_def base_entry_def split: prod.splits sum.splits)
  note f = os_makedirs_frame [OF m] os_makedirs_made [OF m] os_makedirs_upper [OF m]
  note ih = Cons.IH [OF g]
  from f have r: "resolve w1 dfp = resolve w dfp"
    by (simp add: resolve_def)
  from f ih have "resolve w dfp \<in> dirs w'"
    by blast
  moreover from f ih r have
    "dirs w' \<subseteq> dirs w \<union> insert (resolve w dfp) (set (parents (resolve w dfp)))"
    by auto
  ultimately show ?case
    using f ih out tm by auto
qed

lemma base_command_generator_existing:
  assumes "ts \<noteq> [] \<longrightarrow> resolve w dfp \<in> dirs w"
  shows "base_command_generator s ts dfp w = (Inr (map (base_entry s) ts), w)"
  using assms
  by (induction ts) (auto simp: os_makedirs_existing Let_def base_entry_def)

definition models_dir :: "world \<Rightarrow> string \<Rightarrow> path" where
  "models_dir w source_name = resolve w (''models/'' @ source_name)"

lemma all_base_commands_generator_result:
  assumes "all_base_commands_generator scanned w = (Inr out, w')"
  shows "out = base_plan scanned
         \<and> cwd w' = cwd w \<and> files w' = files w \<and> invoked w' = invoked w \<and> dirs w \<subseteq> dirs w'
         \<and> dirs w' \<subseteq> dirs w \<union> (\<Union>(s, md) \<in> set scanned.
                                   insert (models_dir w s) (set (parents (models_dir w s))))
         \<and> (\<forall>(s, md) \<in> set scanned. tables md \<noteq> [] \<longrightarrow> models_dir w s \<in> dirs w')"
  using assms
proof (induction scanned arbitrary: w out)
  case Nil
  then show ?case by (simp add: base_plan_def)
next
  case (Cons m scanned)
  obtain s md where m: "m = (s, md)"
    by (cases m) auto
  from Cons.prems obtain w1 out0 out1 where
    b: "base_command_generator s (tables md) (''models/'' @ s) w = (Inr out0, w1)"
    and g: "all_base_commands_generator scanned w1 = (Inr out1, w')"
    and out: "out = (s, out0) # out1"
    unfolding m by (auto split: prod.splits sum.splits)
  note f = base_command_generator_result [OF b]
  note ih = Cons.IH [OF g]
  from f have r: "\<And>x. models_dir w1 x = models_dir w x"
    by (simp add: models_dir_def resolve_def)
  have 1: "out = base_plan (m # scanned)"
    using f ih out m by (simp add: base_plan_def)
  have 2: "cwd w' = cwd w \<and> files w' = files w \<and> invoked w' = invoked w \<and> dirs w \<subseteq> dirs w'"
    using f ih by auto
  from f have f3: "dirs w1 \<subseteq> dirs w \<union> insert (models_dir w s) (set (parents (models_dir w s)))"
    unfolding models_dir_def by blast
  from f have f4: "tables md \<noteq> [] \<longrightarrow> models_dir w s \<in> dirs w1"
    unfolding models_dir_def by blast
  from ih have ih3: "dirs w' \<subseteq> dirs w1 \<union> (\<Union>(s, md) \<in> set scanned.
                                   insert (models_dir w s) (set (parents (models_dir w s))))"
    and ih4: "\<forall>(s, md) \<in> set scanned. tables md \<noteq> [] \<longrightarrow> models_dir w s \<in> dirs w'"
    and ih5: "dirs w1 \<subseteq> dirs w'"
    unfolding r by blast+
  have 3: "dirs w' \<subseteq> dirs w \<union> (\<Union>(s, md) \<in> set (m # scanned).
                                   insert (models_dir w s) (set (parents (models_dir w s))))"
    using f3 ih3 unfolding m by auto
  have 4: "\<forall>(s, md) \<in> set (m # scanned). tables md \<noteq> [] \<longrightarrow> models_dir w s \<in> dirs w'"
    using f4 ih4 ih5 unfolding m by auto
  from 1 2 3 4 show ?case
    by blast
qed

lemma all_base_commands_generator_existing:
  assumes "\<forall>(s, md) \<in> set scanned. tables md \<noteq> [] \<longrightarrow> models_dir w s \<in> dirs w"
  shows "all_base_commands_generator scanned w = (Inr (base_plan scanned), w)"
  using assms
proof (induction scanned)
  case Nil
  show ?case by (simp add: base_plan_def)
next
  case (Cons m scanned)
  obtain s md where m: "m = (s, md)"
    by (cases m) auto
  from Cons.prems have "tables md \<noteq> [] \<longrightarrow> resolve w (''models/'' @ s) \<in> dirs w"
    unfolding m by (simp add: models_dir_def)
  from base_command_generator_existing [OF this] Cons show ?case
    unfolding m by (simp add: base_plan_def)
qed

lemma base_command_generator_ok:
  assumes "makedirs_ok w dfp"
  shows "\<exists>w'. base_command_generator s ts dfp w = (Inr (map (base_entry s) ts), w')"
  using assms
proof (induction ts arbitrary: w)
  case Nil
  show ?case by simp
next
  case (Cons tm ts)
  obtain t td where tm: "tm = (t, td)"
    by (cases tm) auto
  from os_makedirs_ok [OF Cons.prems] obtain w1 where m: "os_makedirs dfp w = (Inr (), w1)"
    by blast
  from os_makedirs_frame [OF m] Cons.prems have "makedirs_ok w1 dfp"
    using makedirs_ok_mono [of w dfp w1] by simp
  from Cons.IH [OF this] obtain w' where
    "base_command_generator s ts dfp w1 = (Inr (map (base_entry s) ts), w')"
    by blast
  with m show ?case
    unfolding tm by (simp add: base_entry_def)
qed

lemma all_base_commands_generator_ok:
  assumes "\<forall>(s, md) \<in> set scanned. makedirs_ok w (''models/'' @ s)"
  shows "\<exists>w'. all_base_commands_generator scanned w = (Inr (base_plan scanned), w')"
  using assms
proof (induction scanned arbitrary: w)
  case Nil
  show ?case by (simp add: base_plan_def)
next
  case (Cons m scanned)
  obtain s md where m: "m = (s, md)"
    by (cases m) auto
  from Cons.prems have "makedirs_ok w (''models/'' @ s)"
    unfolding m by simp
  from base_command_generator_ok [OF this] obtain w1 where
    b: "base_command_generator s (tables md) (''models/'' @ s) w
        = (Inr (map (base_entry s) (tables md)), w1)"
    by blast
  from base_command_generator_result [OF b] Cons.prems
  have "\<forall>(s, md) \<in> set scanned. makedirs_ok w1 (''models/'' @ s)"
    using makedirs_ok_mono [of w _ w1] by auto
  from Cons.IH [OF this] obtain w' where
    "all_base_commands_generator scanned w1 = (Inr (base_plan scanned), w')"
    by blast
  with b show ?case
    unfolding m by (simp add: base_plan_def)
qed

section \<open>Joining paths\<close>

text \<open>
  A path as \<open>os.getcwd\<close> returns it: absolute, and without a separator at its end unless
  it is the root.
\<close>

definition normalized_abs :: "path \<Rightarrow> bool" where
  "normalized_abs p = (startswith_sep p \<and> (p = ''/'' \<or> \<not> endswith_sep p))"

lemma os_path_join_models:
  "os_path_join p ''models'' = (if p = [] \<or> endswith_sep p then p else p @ ''/'') @ ''models''"
  by (simp add: os_path_join_def startswith_sep_def)

lemma models_folder_relative:
  assumes "\<not> startswith_sep s"
  shows "os_path_join (os_path_join p ''models'') s
         = (if p = [] \<or> endswith_sep p then p else p @ ''/'') @ ''models/'' @ s"
  using assms by (simp add: os_path_join_models) (simp add: os_path_join_def endswith_sep_def)

lemma models_dir_relative:
  assumes "\<not> startswith_sep s"
  shows "os_path_join c (''models/'' @ s)
         = (if c = [] \<or> endswith_sep c then c else c @ ''/'') @ ''models/'' @ s"
  by (simp add: os_path_join_def startswith_sep_def)

lemma models_dir_absolute:
  assumes "startswith_sep s"
  shows "os_path_join c (''models/'' @ s) \<noteq> os_path_join (os_path_join p ''models'') s"
proof -
  have "length (os_path_join c (''models/'' @ s)) > length s"
    by (simp add: os_path_join_def startswith_sep_def)
  moreover from assms have "os_path_join (os_path_join p ''models'') s = s"
    by (simp add: os_path_join_def)
  ultimately show ?thesis
    by auto
qed

lemma normalized_abs_with_sep:
  assumes "normalized_abs c" "normalized_abs p"
    and "(if c = [] \<or> endswith_sep c then c else c @ ''/'')
         = (if p = [] \<or> endswith_sep p then p else p @ ''/'')"
  shows "c = p"
proof -
  have c: "(if c = [] \<or> endswith_sep c then c else c @ ''/'') = (if c = ''/'' then c else c @ ''/'')"
    using assms(1) by (auto simp: normalized_abs_def startswith_sep_def endswith_sep_def)
  have p: "(if p = [] \<or> endswith_sep p then p else p @ ''/'') = (if p = ''/'' then p else p @ ''/'')"
    using assms(2) by (auto simp: normalized_abs_def startswith_sep_def endswith_sep_def)
  from assms(1,2) have "c \<noteq> []" "p \<noteq> []"
    by (auto simp: normalized_abs_def startswith_sep_def)
  with assms(3) show ?thesis
    unfolding c p by (auto split: if_splits)
qed

lemma same_models_folder:
  assumes "normalized_abs c" "normalized_abs p"
  shows "(os_path_join c (''models/'' @ s) = os_path_join (os_path_join p ''models'') s)
         = (c = p \<and> \<not> startswith_sep s)"
proof (cases "startswith_sep s")
  case True
  with models_dir_absolute [OF True] show ?thesis
    by simp
next
  case False
  show ?thesis
    unfolding models_dir_relative [OF False] models_folder_relative [OF False]
    using normalized_abs_with_sep [OF assms] False by auto
qed

section \<open>File names of the two phases\<close>

lemma suffix_os_path_join: "suffix b (os_path_join a b)"
  by (auto simp: os_path_join_def suffix_def)

lemma suffix_resolve_join: "suffix ext (resolve w (os_path_join folder (x @ ext)))"
proof -
  have "suffix ext (x @ ext)"
    by (simp add: suffix_def)
  also have "suffix (x @ ext) (os_path_join folder (x @ ext))"
    by (rule suffix_os_path_join)
  also have "suffix (os_path_join folder (x @ ext)) (resolve w (os_path_join folder (x @ ext)))"
    unfolding resolve_def by (rule suffix_os_path_join)
  finally show ?thesis .
qed

lemma sql_is_not_yml:
  "resolve w (os_path_join folder (x @ ''.sql'')) \<noteq> resolve w' (os_path_join folder' (x' @ ''.yml''))"
proof
  assume eq: "resolve w (os_path_join folder (x @ ''.sql''))
              = resolve w' (os_path_join folder' (x' @ ''.yml''))"
  from suffix_resolve_join [of "''.sql''" w folder x] obtain u where
    u: "resolve w (os_path_join folder (x @ ''.sql'')) = u @ ''.sql''"
    by (auto simp: suffix_def)
  from suffix_resolve_join [of "''.yml''" w' folder' x'] obtain v where
    v: "resolve w' (os_path_join folder' (x' @ ''.yml'')) = v @ ''.yml''"
    by (auto simp: suffix_def)
  from eq u v have "u @ ''.sql'' = v @ ''.yml''"
    by simp
  then show False
    by simp
qed

lemma source_plan_destination:
  assumes "entry \<in> set (plan_entries (Source_mappings (map (source_entry db gc root) schemas)))"
  shows "\<exists>folder x. entry_destination entry = os_path_join folder (x @ ''.yml'')"
proof -
  from assms obtain s where
    "entry_destination entry = os_path_join (os_path_join root s) (''_src_'' @ s @ ''.yml'')"
    by (auto simp: source_entry_def entry_destination_def)
  then have "entry_destination entry = os_path_join (os_path_join root s) ((''_src_'' @ s) @ ''.yml'')"
    by simp
  then show ?thesis
    by blast
qed

lemma base_plan_destination:
  assumes "src_yml_scan ev ms w = Inr scanned"
    and "entry \<in> set (plan_entries (Base_mappings (base_plan scanned)))"
  shows "\<exists>folder x. entry_destination entry = os_path_join folder (x @ ''.sql'')"
proof -
  from assms(2) obtain s md t td where
    m: "(s, md) \<in> set scanned" "(t, td) \<in> set (tables md)"
      "entry_destination entry = file_name td"
    by (auto simp: base_plan_def base_entry_def entry_destination_def)
  from src_yml_scan_result [OF assms(1) m(1)] obtain d where
    "(s, d) \<in> set ms \<and> destination_folder md = destination_folder d
     \<and> (\<forall>(t, td) \<in> set (tables md).
         file_name td = os_path_join (destination_folder d) (''stg_'' @ s @ ''__'' @ py_str t @ ''.sql''))" ..
  then have d: "\<forall>(t, td) \<in> set (tables md).
         file_name td = os_path_join (destination_folder d) (''stg_'' @ s @ ''__'' @ py_str t @ ''.sql'')"
    by (elim conjE)
  from bspec [OF d m(2)] have
    "file_name td = os_path_join (destination_folder d) (''stg_'' @ s @ ''__'' @ py_str t @ ''.sql'')"
    by simp
  with m(3) have "entry_destination entry
      = os_path_join (destination_folder d) ((''stg_'' @ s @ ''__'' @ py_str t) @ ''.sql'')"
    by simp
  then show ?thesis
    by blast
qed

section \<open>The dependency check\<close>

lemma run_dbt_deps_frame:
  assumes "run_dbt_deps ev pd w = (r, w')"
  shows "cwd w' = cwd w \<and> dirs w' = dirs w \<and> files w' = files w
         \<and> (invoked w' = invoked w \<or> invoked w' = invoked w @ [(''dbt deps'', pd)])"
proof (cases "\<exists>r1 w1. subprocess_run ev ''dbt deps'' pd w = (r1, w1) \<and> w' = w1")
  case True
  then obtain r1 where "subprocess_run ev ''dbt deps'' pd w = (r1, w')"
    by blast
  from subprocess_run_frame [OF this] show ?thesis
    by simp
next
  case False
  with assms have "w' = w"
    by (simp add: run_dbt_deps_def Let_def split: if_split_asm sum.split_asm prod.split_asm)
  then show ?thesis
    by simp
qed

section \<open>The pipeline\<close>

lemma pipeline_success:
  assumes "pipeline ev db schemas custom if_exists w = Some (Inr (), w1)"
  shows "\<exists>pd wA plan wB wC scanned bplan wD.
      fetch_dbt_project w custom = Some (Inr pd)
    \<and> run_dbt_deps ev pd w = (Inr (), wA)
    \<and> source_cmd_generator db schemas True (os_path_join pd ''models'') wA = (Inr plan, wB)
    \<and> bash_run_and_make_files ev ''src'' (Source_mappings plan) if_exists pd wB = (Inr (), wC)
    \<and> src_yml_scan ev plan wC = Inr scanned
    \<and> all_base_commands_generator scanned wC = (Inr bplan, wD)
    \<and> bash_run_and_make_files ev ''base'' (Base_mappings bplan) if_exists pd wD = (Inr (), w1)"
  using assms
  by (clarsimp simp: pipeline_def Let_def
      split: option.split_asm sum.split_asm prod.split_asm)


section \<open>A small project\<close>

text \<open>
  A project at \<open>/p\<close> with one source schema \<open>s\<close> holding one table \<open>t\<close>, used to run the
  program on concrete inputs. The source generator prints a banner line, the payload
  and a colour reset; the command \<open>false\<close> fails; the parser stands for PyYAML on the
  documents of this project.
\<close>

definition demo_output :: string where
  "demo_output = ''run'' @ [CHR 0x0A] @ ''version: 2'' @ [CHR 0x0A] @ [CHR 0x1B] @ ''[0m'' @ ''sources:''"

definition demo_env :: env where
  "demo_env =
     \<lparr>run_process = (\<lambda>command directory w.
        if command = ''dbt deps'' then (0, [])
        else if command = src_cmd ''s'' ''lake'' True then (0, demo_output)
        else if command = ''false'' then (1, [])
        else (0, ''with source as (select 1)'')),
      yaml_safe_load = (\<lambda>text.
        if text = ''packages'' then
          Inr (YMap [(YStr ''packages'',
                      YSeq [YMap [(YStr ''package'', YStr ''fishtown-analytics/codegen'')]])])
        else if text = ''packages: []'' then Inr (YMap [(YStr ''packages'', YSeq [])])
        else
          Inr (YMap [(YStr ''sources'',
                      YSeq [YMap [(YStr ''tables'', YSeq [YMap [(YStr ''name'', YStr ''t'')]])]])]))\<rparr>"

definition demo_world :: world where
  "demo_world =
     \<lparr>cwd = ''/p'',
      dirs = {''/'', ''/p'', ''/p/models'', ''/p/models/s''},
      files = [''/p/dbt_project.yml'' \<mapsto> ''name: p'', ''/p/packages.yml'' \<mapsto> ''packages''],
      invoked = []\<rparr>"

definition demo_source :: "string \<times> source_data" where
  "demo_source =
     (''s'',
      \<lparr>destination_folder = ''/p/models/s'',
       destination_file_name = ''_src_s.yml'',
       source_destination_path = ''/p/models/s/_src_s.yml'',
       source_command = src_cmd ''s'' ''lake'' True\<rparr>)"

lemma demo_resolve: "resolve demo_world ''/p/models/s/_src_s.yml'' = ''/p/models/s/_src_s.yml''"
  by (simp add: resolve_def os_path_join_def startswith_sep_def)

lemma demo_dirname: "os_path_dirname ''/p/models/s/_src_s.yml'' = ''/p/models/s''"
  by (simp add: os_path_dirname_def rstrip_sep_def)

lemma demo_clean:
  "re_sub_empty regex_ansi_escape_sequences
     (''version: 2'' @ [CHR 0x0A] @ [CHR 0x1B] @ ''[0m'' @ ''sources:'')
   = ''version: 2'' @ [CHR 0x0A] @ ''sources:''"
  by (simp add: regex_ansi_escape_sequences_def re_match_def in_class_def)

definition demo_other :: "string \<times> source_data" where
  "demo_other =
     (''o'',
      \<lparr>destination_folder = ''/p/models/s'',
       destination_file_name = ''_src_o.yml'',
       source_destination_path = ''/p/models/s/_src_o.yml'',
       source_command = ''other''\<rparr>)"

lemma demo_dirname_o: "os_path_dirname ''/p/models/s/_src_o.yml'' = ''/p/models/s''"
  by (simp add: os_path_dirname_def rstrip_sep_def)

lemma str_lower_Merge: "str_lower ''Merge'' = ''merge''" "str_lower ''MERGE'' = ''merge''"
  by code_simp+

definition demo_failing :: "string \<times> source_data" where
  "demo_failing =
     (''f'',
      \<lparr>destination_folder = ''/p/models/s'',
       destination_file_name = ''_src_f.yml'',
       source_destination_path = ''/p/models/s/_src_f.yml'',
       source_command = ''false''\<rparr>)"

definition demo_world_1 :: world where
  "demo_world_1 =
     demo_world\<lparr>invoked := [(src_cmd ''s'' ''lake'' True, ''/p'')],
                files := (files demo_world)(''/p/models/s/_src_s.yml'' \<mapsto>
                  ''version: 2'' @ [CHR 0x0A] @ ''sources:'')\<rparr>"

lemma demo_run_source:
  "run_and_make_file demo_env ''version: 2'' (src_cmd ''s'' ''lake'' True)
     ''/p/models/s/_src_s.yml'' ''append'' ''/p'' demo_world
   = (Inr (), demo_world_1)"
proof -
  have h1: "\<not> (str_lower ''append'' = ''skip'' \<and> os_path_isfile demo_world ''/p/models/s/_src_s.yml'')"
    by (simp add: str_lower_append)
  have h2: "run_process demo_env (src_cmd ''s'' ''lake'' True) ''/p'' demo_world = (0, demo_output)"
    by (simp add: demo_env_def src_cmd_def)
  have c: "clean_output ''version: 2'' demo_output = ''version: 2'' @ [CHR 0x0A] @ ''sources:''"
    using clean_output_after_banner [of "''run'' @ [CHR 0x0A]" "[CHR 0x0A] @ [CHR 0x1B] @ ''[0m'' @ ''sources:''"]
      demo_clean
    by (simp add: demo_output_def)
  have w: "write_file ''/p/models/s/_src_s.yml'' Mode_a (''version: 2'' @ [CHR 0x0A] @ ''sources:'')
         (demo_world\<lparr>invoked := invoked demo_world @ [(src_cmd ''s'' ''lake'' True, ''/p'')]\<rparr>)
      = (Inr (), demo_world_1)"
    unfolding write_file_def demo_world_1_def
    by (simp add: resolve_def os_path_join_def startswith_sep_def demo_dirname Let_def)
       (simp add: demo_world_def)
  show ?thesis
    using run_and_make_file_run [OF h1 h2, of "''version: 2''" ] c w
    by (simp add: str_lower_append)
qed

definition demo_world_empty_packages :: world where
  "demo_world_empty_packages =
     demo_world\<lparr>files := (files demo_world)(''/p/packages.yml'' \<mapsto> ''packages: []'')\<rparr>"

lemma demo_writable: "writable demo_world ''/p/models/s/_src_s.yml''"
  by (simp add: writable_def demo_resolve demo_dirname) (simp add: demo_world_def)

lemma demo_fresh: "\<not> os_path_isfile demo_world ''/p/models/s/_src_s.yml''"
  by (simp add: os_path_isfile_def demo_resolve) (simp add: demo_world_def)

lemma demo_same_output:
  "\<forall>w'. run_process demo_env (src_cmd ''s'' ''lake'' True) ''/p'' w' = (0, demo_output)"
  by (simp add: demo_env_def src_cmd_def)

lemma demo_entries:
  "plan_entries (Source_mappings [demo_source])
   = [(''version: 2'', src_cmd ''s'' ''lake'' True, ''/p/models/s/_src_s.yml'')]"
  by (simp add: demo_source_def)

lemma demo_clean_output:
  "clean_output ''version: 2'' demo_output = ''version: 2'' @ [CHR 0x0A] @ ''sources:''"
  using clean_output_after_banner [of "''run'' @ [CHR 0x0A]" "[CHR 0x0A] @ [CHR 0x1B] @ ''[0m'' @ ''sources:''"]
    demo_clean
  by (simp add: demo_output_def)

lemma demo_parents_t: "parents ''/p/models/t'' = [''/p/models'', ''/p'', ''/'']"
  by code_simp

lemma demo_makedirs_ok:
  "\<forall>s \<in> set [''s'', ''t'']. makedirs_ok demo_world (os_path_join ''/p/models'' s)"
  by (simp add: makedirs_ok_def resolve_def os_path_join_def startswith_sep_def endswith_sep_def
        demo_parents_t)
     (simp add: demo_world_def)

definition demo_world_elsewhere :: world where
  "demo_world_elsewhere =
     \<lparr>cwd = ''/p/sub'',
      dirs = {''/'', ''/p'', ''/p/sub'', ''/p/models'', ''/p/models/s''},
      files = [''/p/dbt_project.yml'' \<mapsto> ''name: p'', ''/p/packages.yml'' \<mapsto> ''packages'',
               ''/p/models/s/_src_s.yml'' \<mapsto> ''version: 2'' @ [CHR 0x0A] @ ''sources:''],
      invoked = []\<rparr>"

definition demo_scanned :: "string \<times> source_with_tables" where
  "demo_scanned =
     (''s'',
      \<lparr>destination_folder = ''/p/models/s'',
       destination_file_name = ''_src_s.yml'',
       source_destination_path = ''/p/models/s/_src_s.yml'',
       source_command = src_cmd ''s'' ''lake'' True,
       tables = [(YStr ''t'', \<lparr>file_name = ''/p/models/s/stg_s__t.sql''\<rparr>)]\<rparr>)"

definition demo_base_table :: "yaml \<times> base_model_data" where
  "demo_base_table =
     (YStr ''t'',
      \<lparr>file_name = ''/p/models/s/stg_s__t.sql'', base_command = base_cmd ''s'' (YStr ''t'')\<rparr>)"

lemma demo_source_plan:
  "source_cmd_generator ''lake'' [''s''] True (os_path_join ''/p'' ''models'') demo_world
   = (Inr [demo_source], demo_world)"
proof -
  have j: "os_path_join ''/p'' ''models'' = ''/p/models''"
    by (simp add: os_path_join_def startswith_sep_def endswith_sep_def)
  have "\<forall>s \<in> set [''s'']. resolve demo_world (os_path_join ''/p/models'' s) \<in> dirs demo_world"
    by (simp add: resolve_def os_path_join_def startswith_sep_def endswith_sep_def)
       (simp add: demo_world_def)
  from source_cmd_generator_existing [OF this, of "''lake''" True] show ?thesis
    unfolding j
    by (simp add: source_entry_def demo_source_def os_path_join_def startswith_sep_def
          endswith_sep_def)
qed

lemma demo_scan_elsewhere:
  "src_yml_scan demo_env [demo_source] demo_world_elsewhere = Inr [demo_scanned]"
proof -
  have r: "read_file demo_world_elsewhere ''/p/models/s/_src_s.yml''
           = Inr (''version: 2'' @ [CHR 0x0A] @ ''sources:'')"
    by (simp add: read_file_def resolve_def os_path_join_def startswith_sep_def
          demo_world_elsewhere_def)
  have y: "yaml_safe_load demo_env (''version: 2'' @ [CHR 0x0A] @ ''sources:'')
           = Inr (YMap [(YStr ''sources'',
                      YSeq [YMap [(YStr ''tables'', YSeq [YMap [(YStr ''name'', YStr ''t'')]])]])])"
    by (simp add: demo_env_def)
  have t: "table_mapping ''s'' ''/p/models/s'' (YMap [(YStr ''name'', YStr ''t'')])
           = Inr (YStr ''t'', \<lparr>file_name = ''/p/models/s/stg_s__t.sql''\<rparr>)"
    by (simp add: table_mapping_def os_path_join_def startswith_sep_def endswith_sep_def)
  show ?thesis
    unfolding src_yml_scan_def demo_source_def demo_scanned_def
    by (simp add: scan_source_def r [simplified] y [simplified] t)
qed

lemma demo_parents_sub: "parents ''/p/sub/models/s'' = [''/p/sub/models'', ''/p/sub'', ''/p'', ''/'']"
  by code_simp

lemma demo_makedirs_elsewhere: "makedirs_ok demo_world_elsewhere (''models/'' @ ''s'')"
  by (simp add: makedirs_ok_def resolve_def os_path_join_def startswith_sep_def endswith_sep_def
        demo_world_elsewhere_def demo_parents_sub)

text \<open>
  Worlds laid out like the project, whatever commands have run and whatever else they
  hold, and environments that answer like the project's on the dependency command, the
  base-model command and the documents.
\<close>

definition demo_layout :: "world \<Rightarrow> bool" where
  "demo_layout w =
     (cwd w = ''/p'' \<and> dirs w = {''/'', ''/p'', ''/p/models'', ''/p/models/s''}
      \<and> files w ''/p/dbt_project.yml'' = Some ''name: p''
      \<and> files w ''/p/packages.yml'' = Some ''packages'')"

definition demo_like :: "env \<Rightarrow> bool" where
  "demo_like ev =
     (yaml_safe_load ev = yaml_safe_load demo_env
      \<and> (\<forall>w. run_process ev ''dbt deps'' ''/p'' w = (0, []))
      \<and> (\<forall>w. run_process ev (base_cmd ''s'' (YStr ''t'')) ''/p'' w
               = (0, ''with source as (select 1)'')))"

definition demo_yml :: string where
  "demo_yml = ''version: 2'' @ [CHR 0x0A] @ ''sources:''"

lemma demo_layout_demo_world: "demo_layout demo_world"
  by (simp add: demo_layout_def demo_world_def)

lemma demo_like_demo_env: "demo_like demo_env"
  by (simp add: demo_like_def demo_env_def base_cmd_def src_cmd_def)

lemma demo_layout_invoked: "demo_layout w \<Longrightarrow> demo_layout (w\<lparr>invoked := l\<rparr>)"
  by (simp add: demo_layout_def)

lemma demo_layout_yml:
  "demo_layout w \<Longrightarrow> demo_layout (w\<lparr>files := (files w)(''/p/models/s/_src_s.yml'' \<mapsto> text)\<rparr>)"
  by (simp add: demo_layout_def)

lemma resolve_absolute: "startswith_sep p \<Longrightarrow> resolve w p = p"
  by (simp add: resolve_def os_path_join_def)

lemma find_project_here:
  assumes "p \<noteq> ''/''" "os_path_exists w (os_path_join p ''dbt_project.yml'')"
  shows "find_project w p = Some (Inr p)"
  using assms by (subst find_project.simps) simp

lemma demo_join_packages: "os_path_join ''/p'' ''packages.yml'' = ''/p/packages.yml''"
  by (simp add: os_path_join_def startswith_sep_def endswith_sep_def)

lemma demo_join_project: "os_path_join ''/p'' ''dbt_project.yml'' = ''/p/dbt_project.yml''"
  by (simp add: os_path_join_def startswith_sep_def endswith_sep_def)

lemma demo_join_models: "os_path_join ''/p'' ''models'' = ''/p/models''"
  by (simp add: os_path_join_def startswith_sep_def endswith_sep_def)

lemma layout_fetch:
  assumes "demo_layout w"
  shows "fetch_dbt_project w None = Some (Inr ''/p'')"
proof -
  have "os_path_exists w (os_path_join ''/p'' ''dbt_project.yml'')"
    using assms
    by (simp add: demo_join_project os_path_exists_def os_path_isfile_def resolve_absolute
          startswith_sep_def demo_layout_def)
  from find_project_here [OF _ this] assms show ?thesis
    by (simp add: fetch_dbt_project_def demo_layout_def)
qed

lemma layout_deps:
  assumes "demo_layout w" "demo_like ev"
  shows "run_dbt_deps ev ''/p'' w = (Inr (), w\<lparr>invoked := invoked w @ [(''dbt deps'', ''/p'')]\<rparr>)"
proof -
  have f: "os_path_isfile w ''/p/packages.yml''"
    using assms(1)
    by (simp add: os_path_isfile_def resolve_absolute startswith_sep_def demo_layout_def)
  have r: "read_file w ''/p/packages.yml'' = Inr ''packages''"
    using assms(1)
    by (simp add: read_file_def resolve_absolute startswith_sep_def demo_layout_def)
  have y: "yaml_safe_load ev ''packages''
           = Inr (YMap [(YStr ''packages'',
                      YSeq [YMap [(YStr ''package'', YStr ''fishtown-analytics/codegen'')]])])"
    using assms(2) by (simp add: demo_like_def demo_env_def)
  have p: "subprocess_run ev ''dbt deps'' ''/p'' w
           = (Inr [], w\<lparr>invoked := invoked w @ [(''dbt deps'', ''/p'')]\<rparr>)"
    using assms(2) by (simp add: subprocess_run_def demo_like_def)
  show ?thesis
    unfolding run_dbt_deps_def Let_def demo_join_packages
    by (simp add: f r y p)
qed

lemma layout_source_plan:
  assumes "demo_layout w"
  shows "source_cmd_generator ''lake'' [''s''] True ''/p/models'' w = (Inr [demo_source], w)"
proof -
  have "\<forall>s \<in> set [''s'']. resolve w (os_path_join ''/p/models'' s) \<in> dirs w"
    using assms
    by (simp add: resolve_def os_path_join_def startswith_sep_def endswith_sep_def
          demo_layout_def)
  from source_cmd_generator_existing [OF this, of "''lake''" True] show ?thesis
    by (simp add: source_entry_def demo_source_def os_path_join_def startswith_sep_def
          endswith_sep_def)
qed

lemma layout_writable:
  assumes "demo_layout w"
  shows "writable w ''/p/models/s/_src_s.yml''" "writable w ''/p/models/s/stg_s__t.sql''"
  using assms
  by (simp_all add: writable_def resolve_absolute startswith_sep_def demo_dirname
        demo_layout_def os_path_dirname_def rstrip_sep_def)

lemma layout_run_source_fails:
  assumes "demo_layout w" "files w ''/p/models/s/_src_s.yml'' = None"
    and "run_process ev (src_cmd ''s'' ''lake'' True) ''/p'' w = (returncode, stdout)"
    and "returncode \<noteq> 0"
  shows "bash_run_and_make_files ev ''src'' (Source_mappings [demo_source]) ''skip'' ''/p'' w
         = (Inl (CalledProcessError returncode),
            w\<lparr>invoked := invoked w @ [(src_cmd ''s'' ''lake'' True, ''/p'')]\<rparr>)"
proof -
  have h1: "\<not> (str_lower ''skip'' = ''skip'' \<and> os_path_isfile w ''/p/models/s/_src_s.yml'')"
    using assms(2) by (simp add: os_path_isfile_def resolve_absolute startswith_sep_def)
  from run_and_make_file_run [OF h1 assms(3), of "''version: 2''"] assms(4)
  show ?thesis
    using single_entry_step [OF _ demo_entries, of "''src''" ev "''skip''" "''/p''" w]
    by (simp add: shape_fits_def)
qed

lemma layout_run_source:
  assumes "demo_layout w" "files w ''/p/models/s/_src_s.yml'' = None"
    and "run_process ev (src_cmd ''s'' ''lake'' True) ''/p'' w = (0, demo_output)"
  shows "bash_run_and_make_files ev ''src'' (Source_mappings [demo_source]) ''skip'' ''/p'' w
         = (Inr (), w\<lparr>invoked := invoked w @ [(src_cmd ''s'' ''lake'' True, ''/p'')],
                      files := (files w)(''/p/models/s/_src_s.yml'' \<mapsto> demo_yml)\<rparr>)"
proof -
  have r: "resolve w ''/p/models/s/_src_s.yml'' = ''/p/models/s/_src_s.yml''"
    by (simp add: resolve_absolute startswith_sep_def)
  have h1: "\<not> (str_lower ''skip'' = ''skip'' \<and> os_path_isfile w ''/p/models/s/_src_s.yml'')"
    using assms(2) by (simp add: os_path_isfile_def r)
  have e: "file_contents w ''/p/models/s/_src_s.yml'' = []"
    using assms(2) by (simp add: file_contents_def r)
  from run_and_make_file_ok [OF h1 assms(3) layout_writable(1) [OF assms(1)], of "''version: 2''"]
  have "run_and_make_file ev ''version: 2'' (src_cmd ''s'' ''lake'' True)
          ''/p/models/s/_src_s.yml'' ''skip'' ''/p'' w
        = (Inr (), w\<lparr>invoked := invoked w @ [(src_cmd ''s'' ''lake'' True, ''/p'')],
                      files := (files w)(''/p/models/s/_src_s.yml'' \<mapsto> demo_yml)\<rparr>)"
    unfolding e r demo_clean_output demo_yml_def
    by (simp add: str_lower_skip)
  then show ?thesis
    using single_entry_step [OF _ demo_entries, of "''src''" ev "''skip''" "''/p''" w]
    by (simp add: shape_fits_def)
qed

lemma layout_scan:
  assumes "demo_like ev" "files w ''/p/models/s/_src_s.yml'' = Some demo_yml"
  shows "src_yml_scan ev [demo_source] w = Inr [demo_scanned]"
proof -
  have r: "read_file w ''/p/models/s/_src_s.yml'' = Inr demo_yml"
    using assms(2) by (simp add: read_file_def resolve_absolute startswith_sep_def)
  have y: "yaml_safe_load ev demo_yml
           = Inr (YMap [(YStr ''sources'',
                      YSeq [YMap [(YStr ''tables'', YSeq [YMap [(YStr ''name'', YStr ''t'')]])]])])"
    using assms(1) by (simp add: demo_like_def demo_env_def demo_yml_def)
  have t: "table_mapping ''s'' ''/p/models/s'' (YMap [(YStr ''name'', YStr ''t'')])
           = Inr (YStr ''t'', \<lparr>file_name = ''/p/models/s/stg_s__t.sql''\<rparr>)"
    by (simp add: table_mapping_def os_path_join_def startswith_sep_def endswith_sep_def)
  show ?thesis
    unfolding src_yml_scan_def demo_source_def demo_scanned_def
    by (simp add: scan_source_def r y t)
qed

lemma layout_base_plan:
  assumes "demo_layout w"
  shows "all_base_commands_generator [demo_scanned] w = (Inr [(''s'', [demo_base_table])], w)"
proof -
  have "\<forall>(s, md) \<in> set [demo_scanned]. tables md \<noteq> [] \<longrightarrow> models_dir w s \<in> dirs w"
    using assms
    by (simp add: demo_scanned_def models_dir_def resolve_def os_path_join_def startswith_sep_def
          endswith_sep_def demo_layout_def)
  from all_base_commands_generator_existing [OF this] show ?thesis
    by (simp add: base_plan_def demo_scanned_def base_entry_def demo_base_table_def)
qed

lemma demo_clean_base:
  "clean_output ''with source as'' ''with source as (select 1)'' = ''with source as (select 1)''"
proof -
  have "\<not> re_search regex_ansi_escape_sequences ''with source as (select 1)''"
    by (simp add: regex_ansi_escape_sequences_def re_match_def in_class_def)
  from re_sub_empty_no_match [OF this] show ?thesis
    by (simp add: clean_output_def str_slice_from_def del: re_sub_empty.simps)
qed

lemma layout_run_base:
  assumes "demo_layout w" "demo_like ev" "files w ''/p/models/s/stg_s__t.sql'' = None"
  shows "bash_run_and_make_files ev ''base'' (Base_mappings [(''s'', [demo_base_table])]) ''skip''
           ''/p'' w
         = (Inr (), w\<lparr>invoked := invoked w @ [(base_cmd ''s'' (YStr ''t''), ''/p'')],
                      files := (files w)(''/p/models/s/stg_s__t.sql'' \<mapsto>
                        ''with source as (select 1)'')\<rparr>)"
proof -
  have r: "resolve w ''/p/models/s/stg_s__t.sql'' = ''/p/models/s/stg_s__t.sql''"
    by (simp add: resolve_absolute startswith_sep_def)
  have h1: "\<not> (str_lower ''skip'' = ''skip'' \<and> os_path_isfile w ''/p/models/s/stg_s__t.sql'')"
    using assms(3) by (simp add: os_path_isfile_def r)
  have h2: "run_process ev (base_cmd ''s'' (YStr ''t'')) ''/p'' w
            = (0, ''with source as (select 1)'')"
    using assms(2) by (simp add: demo_like_def)
  have e: "file_contents w ''/p/models/s/stg_s__t.sql'' = []"
    using assms(3) by (simp add: file_contents_def r)
  from run_and_make_file_ok [OF h1 h2 layout_writable(2) [OF assms(1)], of "''with source as''"]
  have "run_and_make_file ev ''with source as'' (base_cmd ''s'' (YStr ''t''))
          ''/p/models/s/stg_s__t.sql'' ''skip'' ''/p'' w
        = (Inr (), w\<lparr>invoked := invoked w @ [(base_cmd ''s'' (YStr ''t''), ''/p'')],
                      files := (files w)(''/p/models/s/stg_s__t.sql'' \<mapsto>
                        ''with source as (select 1)'')\<rparr>)"
    unfolding e r demo_clean_base
    by (simp add: str_lower_skip)
  moreover have "plan_entries (Base_mappings [(''s'', [demo_base_table])])
      = [(''with source as'', base_cmd ''s'' (YStr ''t''), ''/p/models/s/stg_s__t.sql'')]"
    by (simp add: demo_base_table_def)
  ultimately show ?thesis
    using single_entry_step [of "''base''" "Base_mappings [(''s'', [demo_base_table])]"
        "''with source as''" "base_cmd ''s'' (YStr ''t'')" "''/p/models/s/stg_s__t.sql''"
        ev "''skip''" "''/p''" w]
    by (simp add: shape_fits_def)
qed


lemma layout_pipeline:
  assumes "demo_layout w" "demo_like ev"
    and "files w ''/p/models/s/_src_s.yml'' = None" "files w ''/p/models/s/stg_s__t.sql'' = None"
    and "run_process ev (src_cmd ''s'' ''lake'' True) ''/p''
           (w\<lparr>invoked := invoked w @ [(''dbt deps'', ''/p'')]\<rparr>) = (0, demo_output)"
  shows "pipeline ev ''lake'' [''s''] None ''skip'' w
         = Some (Inr (),
             w\<lparr>invoked := invoked w @ [(''dbt deps'', ''/p''), (src_cmd ''s'' ''lake'' True, ''/p''),
                                        (base_cmd ''s'' (YStr ''t''), ''/p'')],
               files := (files w)(''/p/models/s/_src_s.yml'' \<mapsto> demo_yml,
                                  ''/p/models/s/stg_s__t.sql'' \<mapsto> ''with source as (select 1)'')\<rparr>)"
proof -
  let ?wA = "w\<lparr>invoked := invoked w @ [(''dbt deps'', ''/p'')]\<rparr>"
  let ?wC = "?wA\<lparr>invoked := invoked ?wA @ [(src_cmd ''s'' ''lake'' True, ''/p'')],
                 files := (files ?wA)(''/p/models/s/_src_s.yml'' \<mapsto> demo_yml)\<rparr>"
  have lA: "demo_layout ?wA"
    using assms(1) by (rule demo_layout_invoked)
  have lC: "demo_layout ?wC"
    using assms(1) by (simp add: demo_layout_def)
  have 1: "fetch_dbt_project w None = Some (Inr ''/p'')"
    using assms(1) by (rule layout_fetch)
  have 2: "run_dbt_deps ev ''/p'' w = (Inr (), ?wA)"
    using assms(1,2) by (rule layout_deps)
  have 3: "source_cmd_generator ''lake'' [''s''] True ''/p/models'' ?wA = (Inr [demo_source], ?wA)"
    using lA by (rule layout_source_plan)
  have 4: "bash_run_and_make_files ev ''src'' (Source_mappings [demo_source]) ''skip'' ''/p'' ?wA
           = (Inr (), ?wC)"
    using layout_run_source [OF lA _ assms(5)] assms(3) by simp
  have 5: "src_yml_scan ev [demo_source] ?wC = Inr [demo_scanned]"
    using assms(2) by (rule layout_scan) simp
  have 6: "all_base_commands_generator [demo_scanned] ?wC = (Inr [(''s'', [demo_base_table])], ?wC)"
    using lC by (rule layout_base_plan)
  have 7: "bash_run_and_make_files ev ''base'' (Base_mappings [(''s'', [demo_base_table])]) ''skip''
           ''/p'' ?wC
         = (Inr (), ?wC\<lparr>invoked := invoked ?wC @ [(base_cmd ''s'' (YStr ''t''), ''/p'')],
                      files := (files ?wC)(''/p/models/s/stg_s__t.sql'' \<mapsto>
                        ''with source as (select 1)'')\<rparr>)"
    using layout_run_base [OF lC assms(2)] assms(4) by simp
  have "pipeline ev ''lake'' [''s''] None ''skip'' w
         = Some (Inr (), ?wC\<lparr>invoked := invoked ?wC @ [(base_cmd ''s'' (YStr ''t''), ''/p'')],
                      files := (files ?wC)(''/p/models/s/stg_s__t.sql'' \<mapsto>
                        ''with source as (select 1)'')\<rparr>)"
    unfolding pipeline_def Let_def
    by (simp only: 1 2 3 4 5 6 7 demo_join_models option.case sum.case prod.case)
  then show ?thesis
    by simp
qed

lemma layout_pipeline_fails:
  assumes "demo_layout w" "demo_like ev"
    and "files w ''/p/models/s/_src_s.yml'' = None"
    and "run_process ev (src_cmd ''s'' ''lake'' True) ''/p''
           (w\<lparr>invoked := invoked w @ [(''dbt deps'', ''/p'')]\<rparr>) = (1, [])"
  shows "pipeline ev ''lake'' [''s''] None ''skip'' w
         = Some (Inl (CalledProcessError 1),
             w\<lparr>invoked := invoked w @ [(''dbt deps'', ''/p''), (src_cmd ''s'' ''lake'' True, ''/p'')]\<rparr>)"
proof -
  let ?wA = "w\<lparr>invoked := invoked w @ [(''dbt deps'', ''/p'')]\<rparr>"
  have lA: "demo_layout ?wA"
    using assms(1) by (rule demo_layout_invoked)
  have 1: "fetch_dbt_project w None = Some (Inr ''/p'')"
    using assms(1) by (rule layout_fetch)
  have 2: "run_dbt_deps ev ''/p'' w = (Inr (), ?wA)"
    using assms(1,2) by (rule layout_deps)
  have 3: "source_cmd_generator ''lake'' [''s''] True ''/p/models'' ?wA = (Inr [demo_source], ?wA)"
    using lA by (rule layout_source_plan)
  have 4: "bash_run_and_make_files ev ''src'' (Source_mappings [demo_source]) ''skip'' ''/p'' ?wA
           = (Inl (CalledProcessError 1),
              ?wA\<lparr>invoked := invoked ?wA @ [(src_cmd ''s'' ''lake'' True, ''/p'')]\<rparr>)"
    using layout_run_source_fails [OF lA _ assms(4)] assms(3) by simp
  have "pipeline ev ''lake'' [''s''] None ''skip'' w
         = Some (Inl (CalledProcessError 1),
              ?wA\<lparr>invoked := invoked ?wA @ [(src_cmd ''s'' ''lake'' True, ''/p'')]\<rparr>)"
    unfolding pipeline_def Let_def
    by (simp only: 1 2 3 4 demo_join_models option.case sum.case prod.case)
  then show ?thesis
    by simp
qed

definition demo_world_final :: world where
  "demo_world_final =
     demo_world\<lparr>invoked := [(''dbt deps'', ''/p''), (src_cmd ''s'' ''lake'' True, ''/p''),
                            (base_cmd ''s'' (YStr ''t''), ''/p'')],
                files := (files demo_world)
                  (''/p/models/s/_src_s.yml'' \<mapsto> demo_yml,
                   ''/p/models/s/stg_s__t.sql'' \<mapsto> ''with source as (select 1)'')\<rparr>"

lemma demo_pipeline:
  "pipeline demo_env ''lake'' [''s''] None ''skip'' demo_world = Some (Inr (), demo_world_final)"
proof -
  have f: "files demo_world ''/p/models/s/_src_s.yml'' = None"
    "files demo_world ''/p/models/s/stg_s__t.sql'' = None" "invoked demo_world = []"
    by (simp_all add: demo_world_def)
  from layout_pipeline [OF demo_layout_demo_world demo_like_demo_env f(1,2)] demo_same_output
  show ?thesis
    by (simp add: demo_world_final_def f(3))
qed

text \<open>
  An environment in which the source generator fails the first time it is run in a
  directory and works afterwards.
\<close>

definition flaky_env :: env where
  "flaky_env =
     demo_env\<lparr>run_process := (\<lambda>command directory w.
        if command = src_cmd ''s'' ''lake'' True \<and> (command, directory) \<notin> set (invoked w)
        then (1, [])
        else run_process demo_env command directory w)\<rparr>"

definition demo_world_failed :: world where
  "demo_world_failed =
     demo_world\<lparr>invoked := [(''dbt deps'', ''/p''), (src_cmd ''s'' ''lake'' True, ''/p'')]\<rparr>"

definition demo_world_retried :: world where
  "demo_world_retried =
     demo_world\<lparr>invoked := [(''dbt deps'', ''/p''), (src_cmd ''s'' ''lake'' True, ''/p''),
                            (''dbt deps'', ''/p''), (src_cmd ''s'' ''lake'' True, ''/p''),
                            (base_cmd ''s'' (YStr ''t''), ''/p'')],
                files := (files demo_world)
                  (''/p/models/s/_src_s.yml'' \<mapsto> demo_yml,
                   ''/p/models/s/stg_s__t.sql'' \<mapsto> ''with source as (select 1)'')\<rparr>"

lemma demo_like_flaky_env: "demo_like flaky_env"
  by (simp add: demo_like_def flaky_env_def demo_env_def base_cmd_def src_cmd_def)

section \<open>A project run from its models directory\<close>

text \<open>
  A second small project. The program is started in the directory \<open>/p/models\<close> of the
  project at \<open>/p\<close>; that directory holds a \<open>packages.yml\<close> of its own, and the one schema
  asked for is named \<open>dbt_project.yml\<close>. The texts are YAML in flow style, and the parser
  of this environment gives them the values that YAML gives them; the generator prints a
  declaration with no table. The first run makes the directory
  \<open>/p/models/dbt_project.yml\<close>, which \<open>os.path.exists\<close> accepts as the project file, so the
  second run takes \<open>/p/models\<close> for the project.
\<close>

definition nested_packages :: string where
  "nested_packages = ''packages: [{package: fishtown-analytics/codegen}]''"

definition nested_yml :: string where
  "nested_yml = ''version: 2'' @ [CHR 0x0A] @ ''sources: [{name: dbt_project.yml, tables: []}]''"

definition nested_output :: string where
  "nested_output = ''Running dbt'' @ [CHR 0x0A] @ nested_yml"

definition nested_parsed :: yaml where
  "nested_parsed =
     YMap [(YStr ''version'', YInt 2),
           (YStr ''sources'',
            YSeq [YMap [(YStr ''name'', YStr ''dbt_project.yml''), (YStr ''tables'', YSeq [])]])]"

definition nested_env :: env where
  "nested_env =
     \<lparr>run_process = (\<lambda>command directory w.
        if command = src_cmd ''dbt_project.yml'' ''lake'' True then (0, nested_output) else (0, [])),
      yaml_safe_load = (\<lambda>text.
        if text = nested_packages then
          Inr (YMap [(YStr ''packages'',
                      YSeq [YMap [(YStr ''package'', YStr ''fishtown-analytics/codegen'')]])])
        else if text = nested_yml then Inr nested_parsed
        else Inl YAMLError)\<rparr>"

definition nested_world :: world where
  "nested_world =
     \<lparr>cwd = ''/p/models'',
      dirs = {''/'', ''/p'', ''/p/models''},
      files = [''/p/dbt_project.yml'' \<mapsto> ''name: p'', ''/p/packages.yml'' \<mapsto> nested_packages,
               ''/p/models/packages.yml'' \<mapsto> nested_packages],
      invoked = []\<rparr>"

definition nested_world_1 :: world where
  "nested_world_1 =
     nested_world
       \<lparr>dirs := insert ''/p/models/dbt_project.yml'' (dirs nested_world),
        files := (files nested_world)
          (''/p/models/dbt_project.yml/_src_dbt_project.yml.yml'' \<mapsto> nested_yml),
        invoked := [(''dbt deps'', ''/p''), (src_cmd ''dbt_project.yml'' ''lake'' True, ''/p'')]\<rparr>"

definition nested_world_2 :: world where
  "nested_world_2 =
     nested_world_1
       \<lparr>dirs := insert ''/p/models/models/dbt_project.yml''
                  (insert ''/p/models/models'' (dirs nested_world_1)),
        files := (files nested_world_1)
          (''/p/models/models/dbt_project.yml/_src_dbt_project.yml.yml'' \<mapsto> nested_yml),
        invoked := invoked nested_world_1
          @ [(''dbt deps'', ''/p/models''),
             (src_cmd ''dbt_project.yml'' ''lake'' True, ''/p/models'')]\<rparr>"

lemma nested_dirname: "os_path_dirname ''/p/models'' = ''/p''"
  by (simp add: os_path_dirname_def rstrip_sep_def)

lemma nested_fetch: "fetch_dbt_project nested_world None = Some (Inr ''/p'')"
proof -
  have c: "cwd nested_world = ''/p/models''"
    by (simp add: nested_world_def)
  have n: "\<not> os_path_exists nested_world (os_path_join ''/p/models'' ''dbt_project.yml'')"
    by (simp add: os_path_exists_def os_path_isfile_def os_path_isdir_def resolve_def
          os_path_join_def startswith_sep_def endswith_sep_def nested_world_def)
  have e: "os_path_exists nested_world (os_path_join ''/p'' ''dbt_project.yml'')"
    by (simp add: os_path_exists_def os_path_isfile_def os_path_isdir_def resolve_def
          os_path_join_def startswith_sep_def endswith_sep_def nested_world_def)
  have "find_project nested_world ''/p/models'' = find_project nested_world ''/p''"
    using n by (subst find_project.simps) (simp add: nested_dirname)
  with find_project_here [OF _ e] show ?thesis
    by (simp add: fetch_dbt_project_def c)
qed

lemma nested_fetch_1: "fetch_dbt_project nested_world_1 None = Some (Inr ''/p/models'')"
proof -
  have c: "cwd nested_world_1 = ''/p/models''"
    by (simp add: nested_world_1_def nested_world_def)
  have e: "os_path_exists nested_world_1 (os_path_join ''/p/models'' ''dbt_project.yml'')"
    by (simp add: os_path_exists_def os_path_isfile_def os_path_isdir_def resolve_def
          os_path_join_def startswith_sep_def endswith_sep_def nested_world_1_def nested_world_def)
  from find_project_here [OF _ e] show ?thesis
    by (simp add: fetch_dbt_project_def c)
qed


lemma run_dbt_deps_ok:
  assumes "files w (resolve w (os_path_join pd ''packages.yml'')) = Some text"
    and "yaml_safe_load ev text
         = Inr (YMap [(YStr ''packages'',
                      YSeq [YMap [(YStr ''package'', YStr ''fishtown-analytics/codegen'')]])])"
    and "run_process ev ''dbt deps'' pd w = (0, out)"
  shows "run_dbt_deps ev pd w = (Inr (), w\<lparr>invoked := invoked w @ [(''dbt deps'', pd)]\<rparr>)"
proof -
  have f: "os_path_isfile w (os_path_join pd ''packages.yml'')"
    using assms(1) by (simp add: os_path_isfile_def)
  have r: "read_file w (os_path_join pd ''packages.yml'') = Inr text"
    using assms(1) by (simp add: read_file_def)
  have p: "subprocess_run ev ''dbt deps'' pd w
           = (Inr out, w\<lparr>invoked := invoked w @ [(''dbt deps'', pd)]\<rparr>)"
    using assms(3) by (simp add: subprocess_run_def)
  show ?thesis
    unfolding run_dbt_deps_def Let_def
    by (simp add: f r assms(2) p)
qed

lemma os_makedirs_new:
  assumes "resolve w name \<notin> dirs w" "files w (resolve w name) = None"
    and "\<not> list_ex (\<lambda>d. files w d \<noteq> None) (parents (resolve w name))"
  shows "os_makedirs name w
         = (Inr (), w\<lparr>dirs := dirs w \<union> set (parents (resolve w name)) \<union> {resolve w name}\<rparr>)"
  using assms by (simp add: os_makedirs_def Let_def)

lemma nested_parents_1:
  "parents ''/p/models/dbt_project.yml'' = [''/p/models'', ''/p'', ''/'']"
  by code_simp

lemma nested_parents_2:
  "parents ''/p/models/models/dbt_project.yml'' = [''/p/models/models'', ''/p/models'', ''/p'', ''/'']"
  by code_simp

definition nested_source_1 :: "string \<times> source_data" where
  "nested_source_1 =
     (''dbt_project.yml'',
      \<lparr>destination_folder = ''/p/models/dbt_project.yml'',
       destination_file_name = ''_src_dbt_project.yml.yml'',
       source_destination_path = ''/p/models/dbt_project.yml/_src_dbt_project.yml.yml'',
       source_command = src_cmd ''dbt_project.yml'' ''lake'' True\<rparr>)"

definition nested_source_2 :: "string \<times> source_data" where
  "nested_source_2 =
     (''dbt_project.yml'',
      \<lparr>destination_folder = ''/p/models/models/dbt_project.yml'',
       destination_file_name = ''_src_dbt_project.yml.yml'',
       source_destination_path = ''/p/models/models/dbt_project.yml/_src_dbt_project.yml.yml'',
       source_command = src_cmd ''dbt_project.yml'' ''lake'' True\<rparr>)"

definition nested_world_A :: world where
  "nested_world_A = nested_world\<lparr>invoked := [(''dbt deps'', ''/p'')]\<rparr>"

definition nested_world_B :: world where
  "nested_world_B =
     nested_world\<lparr>dirs := insert ''/p/models/dbt_project.yml'' (dirs nested_world),
                  invoked := [(''dbt deps'', ''/p'')]\<rparr>"

lemma nested_yaml_packages:
  "yaml_safe_load nested_env nested_packages
   = Inr (YMap [(YStr ''packages'',
                 YSeq [YMap [(YStr ''package'', YStr ''fishtown-analytics/codegen'')]])])"
  by (simp add: nested_env_def)

lemma nested_run_deps: "run_process nested_env ''dbt deps'' pd w = (0, [])"
  by (simp add: nested_env_def src_cmd_def)

lemma nested_run_source:
  "run_process nested_env (src_cmd ''dbt_project.yml'' ''lake'' True) pd w = (0, nested_output)"
  by (simp add: nested_env_def)

lemma nested_deps: "run_dbt_deps nested_env ''/p'' nested_world = (Inr (), nested_world_A)"
proof -
  have "files nested_world (resolve nested_world (os_path_join ''/p'' ''packages.yml''))
        = Some nested_packages"
    by (simp add: resolve_def os_path_join_def startswith_sep_def endswith_sep_def nested_world_def)
  from run_dbt_deps_ok [OF this nested_yaml_packages nested_run_deps] show ?thesis
    by (simp add: nested_world_A_def) (simp add: nested_world_def)
qed

lemma nested_source_plan:
  "source_cmd_generator ''lake'' [''dbt_project.yml''] True (os_path_join ''/p'' ''models'')
     nested_world_A = (Inr [nested_source_1], nested_world_B)"
proof -
  have j: "os_path_join ''/p/models'' ''dbt_project.yml'' = ''/p/models/dbt_project.yml''"
      "os_path_join ''/p/models/dbt_project.yml'' ''_src_dbt_project.yml.yml''
       = ''/p/models/dbt_project.yml/_src_dbt_project.yml.yml''"
    by (simp_all add: os_path_join_def startswith_sep_def endswith_sep_def)
  have r: "resolve nested_world_A ''/p/models/dbt_project.yml'' = ''/p/models/dbt_project.yml''"
    by (simp add: resolve_absolute startswith_sep_def)
  have m: "os_makedirs ''/p/models/dbt_project.yml'' nested_world_A = (Inr (), nested_world_B)"
  proof -
    have "os_makedirs ''/p/models/dbt_project.yml'' nested_world_A
          = (Inr (), nested_world_A\<lparr>dirs := dirs nested_world_A
               \<union> set (parents (resolve nested_world_A ''/p/models/dbt_project.yml''))
               \<union> {resolve nested_world_A ''/p/models/dbt_project.yml''}\<rparr>)"
      by (rule os_makedirs_new)
         (simp_all add: resolve_absolute startswith_sep_def nested_parents_1 nested_world_A_def
            nested_world_def)
    also have "\<dots> = (Inr (), nested_world_B)"
      by (simp add: resolve_absolute startswith_sep_def nested_parents_1 nested_world_A_def
            nested_world_B_def)
         (auto simp: nested_world_def)
    finally show ?thesis .
  qed
  show ?thesis
    by (simp add: demo_join_models j m Let_def nested_source_1_def)
qed


lemma run_source_fresh:
  assumes "startswith_sep (source_destination_path d)"
    and "files w (source_destination_path d) = None"
    and "source_destination_path d \<notin> dirs w"
    and "os_path_dirname (source_destination_path d) \<in> dirs w"
    and "run_process ev (source_command d) pd w = (0, out)"
  shows "bash_run_and_make_files ev ''src'' (Source_mappings [(s, d)]) ''skip'' pd w
         = (Inr (), w\<lparr>invoked := invoked w @ [(source_command d, pd)],
                      files := (files w)(source_destination_path d
                        \<mapsto> clean_output ''version: 2'' out)\<rparr>)"
proof -
  let ?dest = "source_destination_path d"
  have r: "resolve w ?dest = ?dest"
    using assms(1) by (rule resolve_absolute)
  have h1: "\<not> (str_lower ''skip'' = ''skip'' \<and> os_path_isfile w ?dest)"
    using assms(2) by (simp add: os_path_isfile_def r)
  have h3: "writable w ?dest"
    using assms(3,4) by (simp add: writable_def r)
  have e: "file_contents w ?dest = []"
    using assms(2) by (simp add: file_contents_def r)
  from run_and_make_file_ok [OF h1 assms(5) h3, of "''version: 2''"]
  have "run_and_make_file ev ''version: 2'' (source_command d) ?dest ''skip'' pd w
        = (Inr (), w\<lparr>invoked := invoked w @ [(source_command d, pd)],
                      files := (files w)(?dest \<mapsto> clean_output ''version: 2'' out)\<rparr>)"
    unfolding e r
    by (simp add: str_lower_skip)
  then show ?thesis
    using single_entry_step [of "''src''" "Source_mappings [(s, d)]" "''version: 2''"
        "source_command d" ?dest ev "''skip''" pd w]
    by (simp add: shape_fits_def)
qed

lemma nested_scan:
  assumes "startswith_sep (source_destination_path d)"
    and "files w (source_destination_path d) = Some text"
    and "yaml_safe_load ev text = Inr nested_parsed"
  shows "src_yml_scan ev [(s, d)] w
         = Inr [(s, \<lparr>destination_folder = destination_folder d,
                     destination_file_name = destination_file_name d,
                     source_destination_path = source_destination_path d,
                     source_command = source_command d,
                     tables = []\<rparr>)]"
proof -
  have r: "read_file w (source_destination_path d) = Inr text"
    using assms(1,2) by (simp add: read_file_def resolve_absolute)
  show ?thesis
    unfolding src_yml_scan_def
    by (simp add: scan_source_def r assms(3) nested_parsed_def)
qed

lemma base_phase_no_tables:
  assumes "tables md = []"
  shows "all_base_commands_generator [(s, md)] w = (Inr [(s, [])], w)"
    and "bash_run_and_make_files ev ''base'' (Base_mappings [(s, [])]) if_exists pd w = (Inr (), w)"
  using assms by (simp_all add: bash_run_and_make_files_def)

lemma nested_dirname_1:
  "os_path_dirname ''/p/models/dbt_project.yml/_src_dbt_project.yml.yml''
   = ''/p/models/dbt_project.yml''"
  by (simp add: os_path_dirname_def rstrip_sep_def)

lemma nested_dirname_2:
  "os_path_dirname ''/p/models/models/dbt_project.yml/_src_dbt_project.yml.yml''
   = ''/p/models/models/dbt_project.yml''"
  by (simp add: os_path_dirname_def rstrip_sep_def)

lemma nested_yaml_sources: "yaml_safe_load nested_env nested_yml = Inr nested_parsed"
  by (simp add: nested_env_def nested_yml_def nested_packages_def)

lemma nested_clean_output: "clean_output ''version: 2'' nested_output = nested_yml"
proof -
  have "re_sub_empty regex_ansi_escape_sequences nested_yml = nested_yml"
    by (simp add: nested_yml_def regex_ansi_escape_sequences_def re_match_def in_class_def)
  then show ?thesis
    using clean_output_after_banner [of "''Running dbt'' @ [CHR 0x0A]"
        "[CHR 0x0A] @ ''sources: [{name: dbt_project.yml, tables: []}]''"]
    by (simp add: nested_output_def nested_yml_def)
qed

lemma nested_run_source_1:
  "bash_run_and_make_files nested_env ''src'' (Source_mappings [nested_source_1]) ''skip'' ''/p''
     nested_world_B = (Inr (), nested_world_1)"
proof -
  have "bash_run_and_make_files nested_env ''src''
          (Source_mappings [(''dbt_project.yml'', snd nested_source_1)]) ''skip'' ''/p'' nested_world_B
        = (Inr (), nested_world_B
             \<lparr>invoked := invoked nested_world_B @ [(source_command (snd nested_source_1), ''/p'')],
              files := (files nested_world_B)
                (source_destination_path (snd nested_source_1)
                  \<mapsto> clean_output ''version: 2'' nested_output)\<rparr>)"
    by (rule run_source_fresh)
       (simp_all add: nested_source_1_def startswith_sep_def nested_dirname_1 nested_run_source
          nested_world_B_def nested_world_def)
  then show ?thesis
    by (simp add: nested_source_1_def nested_world_B_def nested_world_1_def nested_clean_output)
qed

lemma nested_pipeline_1:
  "pipeline nested_env ''lake'' [''dbt_project.yml''] None ''skip'' nested_world
   = Some (Inr (), nested_world_1)"
proof -
  let ?md = "\<lparr>destination_folder = destination_folder (snd nested_source_1),
              destination_file_name = destination_file_name (snd nested_source_1),
              source_destination_path = source_destination_path (snd nested_source_1),
              source_command = source_command (snd nested_source_1),
              tables = []\<rparr>"
  have 5: "src_yml_scan nested_env [nested_source_1] nested_world_1
           = Inr [(''dbt_project.yml'', ?md)]"
    using nested_scan [of "snd nested_source_1" nested_world_1 nested_yml nested_env
        "''dbt_project.yml''"] nested_yaml_sources
    by (simp add: nested_source_1_def startswith_sep_def nested_world_1_def)
  have t: "tables ?md = []"
    by simp
  note 6 = base_phase_no_tables(1) [OF t, of "''dbt_project.yml''" nested_world_1]
  note 7 = base_phase_no_tables(2) [OF t, of nested_env "''dbt_project.yml''" "''skip''" "''/p''"
      nested_world_1]
  show ?thesis
    unfolding pipeline_def Let_def
    by (simp only: nested_fetch nested_deps nested_source_plan nested_run_source_1 5 6 7
          option.case sum.case prod.case)
qed


definition nested_world_C :: world where
  "nested_world_C =
     nested_world_1\<lparr>invoked := invoked nested_world_1 @ [(''dbt deps'', ''/p/models'')]\<rparr>"

definition nested_world_D :: world where
  "nested_world_D =
     nested_world_1
       \<lparr>dirs := insert ''/p/models/models/dbt_project.yml''
                  (insert ''/p/models/models'' (dirs nested_world_1)),
        invoked := invoked nested_world_1 @ [(''dbt deps'', ''/p/models'')]\<rparr>"

lemma nested_fetch_again: "fetch_dbt_project nested_world_1 None = Some (Inr ''/p/models'')"
  by (rule nested_fetch_1)

lemma nested_deps_again:
  "run_dbt_deps nested_env ''/p/models'' nested_world_1 = (Inr (), nested_world_C)"
proof -
  have "files nested_world_1 (resolve nested_world_1 (os_path_join ''/p/models'' ''packages.yml''))
        = Some nested_packages"
    by (simp add: resolve_def os_path_join_def startswith_sep_def endswith_sep_def
          nested_world_1_def nested_world_def)
  from run_dbt_deps_ok [OF this nested_yaml_packages nested_run_deps] show ?thesis
    by (simp add: nested_world_C_def)
qed

lemma nested_source_plan_again:
  "source_cmd_generator ''lake'' [''dbt_project.yml''] True (os_path_join ''/p/models'' ''models'')
     nested_world_C = (Inr [nested_source_2], nested_world_D)"
proof -
  have j: "os_path_join ''/p/models'' ''models'' = ''/p/models/models''"
      "os_path_join ''/p/models/models'' ''dbt_project.yml'' = ''/p/models/models/dbt_project.yml''"
      "os_path_join ''/p/models/models/dbt_project.yml'' ''_src_dbt_project.yml.yml''
       = ''/p/models/models/dbt_project.yml/_src_dbt_project.yml.yml''"
    by (simp_all add: os_path_join_def startswith_sep_def endswith_sep_def)
  have m: "os_makedirs ''/p/models/models/dbt_project.yml'' nested_world_C
           = (Inr (), nested_world_D)"
  proof -
    have "os_makedirs ''/p/models/models/dbt_project.yml'' nested_world_C
          = (Inr (), nested_world_C\<lparr>dirs := dirs nested_world_C
               \<union> set (parents (resolve nested_world_C ''/p/models/models/dbt_project.yml''))
               \<union> {resolve nested_world_C ''/p/models/models/dbt_project.yml''}\<rparr>)"
      by (rule os_makedirs_new)
         (simp_all add: resolve_absolute startswith_sep_def nested_parents_2 nested_world_C_def
            nested_world_1_def nested_world_def)
    also have "\<dots> = (Inr (), nested_world_D)"
      by (simp add: resolve_absolute startswith_sep_def nested_parents_2 nested_world_C_def
            nested_world_D_def)
         (auto simp: nested_world_1_def nested_world_def)
    finally show ?thesis .
  qed
  show ?thesis
    by (simp add: j m Let_def nested_source_2_def)
qed

lemma nested_run_source_2:
  "bash_run_and_make_files nested_env ''src'' (Source_mappings [nested_source_2]) ''skip''
     ''/p/models'' nested_world_D = (Inr (), nested_world_2)"
proof -
  have "bash_run_and_make_files nested_env ''src''
          (Source_mappings [(''dbt_project.yml'', snd nested_source_2)]) ''skip'' ''/p/models''
          nested_world_D
        = (Inr (), nested_world_D
             \<lparr>invoked := invoked nested_world_D
                @ [(source_command (snd nested_source_2), ''/p/models'')],
              files := (files nested_world_D)
                (source_destination_path (snd nested_source_2)
                  \<mapsto> clean_output ''version: 2'' nested_output)\<rparr>)"
    by (rule run_source_fresh)
       (simp_all add: nested_source_2_def startswith_sep_def nested_dirname_2 nested_run_source
          nested_world_D_def nested_world_1_def nested_world_def)
  then show ?thesis
    by (simp add: nested_source_2_def nested_world_D_def nested_world_2_def nested_clean_output)
qed

lemma nested_pipeline_2:
  "pipeline nested_env ''lake'' [''dbt_project.yml''] None ''skip'' nested_world_1
   = Some (Inr (), nested_world_2)"
proof -
  let ?md = "\<lparr>destination_folder = destination_folder (snd nested_source_2),
              destination_file_name = destination_file_name (snd nested_source_2),
              source_destination_path = source_destination_path (snd nested_source_2),
              source_command = source_command (snd nested_source_2),
              tables = []\<rparr>"
  have 5: "src_yml_scan nested_env [nested_source_2] nested_world_2
           = Inr [(''dbt_project.yml'', ?md)]"
    using nested_scan [of "snd nested_source_2" nested_world_2 nested_yml nested_env
        "''dbt_project.yml''"] nested_yaml_sources
    by (simp add: nested_source_2_def startswith_sep_def nested_world_2_def)
  have t: "tables ?md = []"
    by simp
  note 6 = base_phase_no_tables(1) [OF t, of "''dbt_project.yml''" nested_world_2]
  note 7 = base_phase_no_tables(2) [OF t, of nested_env "''dbt_project.yml''" "''skip''"
      "''/p/models''" nested_world_2]
  show ?thesis
    unfolding pipeline_def Let_def
    by (simp only: nested_fetch_again nested_deps_again nested_source_plan_again
          nested_run_source_2 5 6 7 option.case sum.case prod.case)
qed


section \<open>Marker slicing (C5)\<close>

text \<open>
  Claim C5. When the source generator's output is a banner without the marker, then
  \<open>version: 2\<close>, a newline and the rest, the executor runs the command and writes to the
  destination, in the mode of the policy, exactly \<open>version: 2\<close>, the newline and the rest
  with the escape sequences removed: the banner is discarded.
\<close>

theorem marker_slicing:
  assumes "\<not> (str_lower if_exists = ''skip'' \<and> os_path_isfile w (source_destination_path command_data))"
    and "run_process ev (source_command command_data) project_directory w
           = (0, banner @ ''version: 2'' @ [CHR 0x0A] @ rest)"
    and "\<not> str_contains banner ''version: 2''"
  shows "bash_run_and_make_files ev ''src'' (Source_mappings [(source_name, command_data)])
           if_exists project_directory w
         = write_file (source_destination_path command_data)
             (if str_lower if_exists = ''replace'' then Mode_w else Mode_a)
             (re_sub_empty regex_ansi_escape_sequences (''version: 2'' @ [CHR 0x0A] @ rest))
             (w\<lparr>invoked := invoked w @ [(source_command command_data, project_directory)]\<rparr>)"
proof -
  have "clean_output ''version: 2'' (banner @ ''version: 2'' @ [CHR 0x0A] @ rest)
        = re_sub_empty regex_ansi_escape_sequences (''version: 2'' @ [CHR 0x0A] @ rest)"
    using assms(3) by (rule clean_output_after_banner)
  moreover have "bash_run_and_make_files ev ''src'' (Source_mappings [(source_name, command_data)])
           if_exists project_directory w
     = run_and_make_file ev ''version: 2'' (source_command command_data)
         (source_destination_path command_data) if_exists project_directory w"
    by (simp add: bash_run_and_make_files_def split: prod.splits sum.splits)
  ultimately show ?thesis
    using run_and_make_file_run [OF assms(1,2), of "''version: 2''"] by simp
qed

theorem marker_slicing_witness:
  "\<not> (str_lower ''skip'' = ''skip'' \<and> os_path_isfile demo_world (source_destination_path (snd demo_source)))
   \<and> run_process demo_env (source_command (snd demo_source)) ''/p'' demo_world
        = (0, ''run'' @ [CHR 0x0A] @ ''version: 2'' @ [CHR 0x0A] @ ([CHR 0x1B] @ ''[0m'' @ ''sources:''))
   \<and> \<not> str_contains (''run'' @ [CHR 0x0A]) ''version: 2''
   \<and> bash_run_and_make_files demo_env ''src'' (Source_mappings [demo_source]) ''skip'' ''/p'' demo_world
       = (Inr (), demo_world\<lparr>invoked := [(src_cmd ''s'' ''lake'' True, ''/p'')],
                   files := (files demo_world)(''/p/models/s/_src_s.yml'' \<mapsto>
                     ''version: 2'' @ [CHR 0x0A] @ ''sources:'')\<rparr>)"
proof -
  have h1: "\<not> (str_lower ''skip'' = ''skip'' \<and> os_path_isfile demo_world (source_destination_path (snd demo_source)))"
    by (simp add: os_path_isfile_def demo_source_def demo_resolve) (simp add: demo_world_def)
  have h2: "run_process demo_env (source_command (snd demo_source)) ''/p'' demo_world
        = (0, (''run'' @ [CHR 0x0A]) @ ''version: 2'' @ [CHR 0x0A] @ ([CHR 0x1B] @ ''[0m'' @ ''sources:''))"
    by (simp add: demo_env_def demo_source_def demo_output_def src_cmd_def)
  have h3: "\<not> str_contains (''run'' @ [CHR 0x0A]) ''version: 2''"
    by simp
  have w: "write_file ''/p/models/s/_src_s.yml'' Mode_a (''version: 2'' @ [CHR 0x0A] @ ''sources:'')
         (demo_world\<lparr>invoked := invoked demo_world @ [(src_cmd ''s'' ''lake'' True, ''/p'')]\<rparr>)
      = (Inr (), demo_world\<lparr>invoked := [(src_cmd ''s'' ''lake'' True, ''/p'')],
                   files := (files demo_world)(''/p/models/s/_src_s.yml'' \<mapsto>
                     ''version: 2'' @ [CHR 0x0A] @ ''sources:'')\<rparr>)"
    unfolding write_file_def
    by (simp add: resolve_def os_path_join_def startswith_sep_def demo_dirname Let_def)
       (simp add: demo_world_def)
  show ?thesis
    using marker_slicing [OF h1 h2 h3, of "''s''"] h1 h2 h3 w demo_clean
    by (simp add: demo_source_def str_lower_skip)
qed


section \<open>A missing marker (C2)\<close>

text \<open>
  Claim C2. When a generation command succeeds and its output does not contain the
  marker of its branch (\<open>version: 2\<close> for sources, \<open>with source as\<close> for base models),
  \<open>find\<close> returns \<open>-1\<close> and no exception is raised for it: the executor goes on to write,
  in the mode of the policy, the slice that starts at the last character of the output
  (nothing when the output is empty), which the removal of escape sequences leaves as
  it is.
\<close>

theorem missing_marker_written_silently:
  assumes "shape_fits cmd_type cm"
    and "plan_entries cm = [(marker, command, destination)]"
    and "\<not> (str_lower if_exists = ''skip'' \<and> os_path_isfile w destination)"
    and "run_process ev command project_directory w = (0, stdout)"
    and "\<not> str_contains stdout marker"
  shows "marker = (if cmd_type = ''src'' then ''version: 2'' else ''with source as'')
    \<and> str_find stdout marker = - 1
    \<and> bash_run_and_make_files ev cmd_type cm if_exists project_directory w
        = write_file destination
            (if str_lower if_exists = ''replace'' then Mode_w else Mode_a)
            (if stdout = [] then [] else [last stdout])
            (w\<lparr>invoked := invoked w @ [(command, project_directory)]\<rparr>)"
proof -
  have "marker = (if cmd_type = ''src'' then ''version: 2'' else ''with source as'')"
    using plan_entries_marker [OF assms(1), of marker command destination] assms(2) by simp
  moreover have "str_find stdout marker = - 1"
    using assms(5) by (rule str_find_absent)
  moreover have "bash_run_and_make_files ev cmd_type cm if_exists project_directory w
      = run_and_make_file ev marker command destination if_exists project_directory w"
    by (simp add: bash_run_and_make_files_entries [OF assms(1)] assms(2) split: prod.splits sum.splits)
  ultimately show ?thesis
    using run_and_make_file_run [OF assms(3,4), of marker] clean_output_absent [OF assms(5)]
    by simp
qed

theorem missing_marker_written_silently_witness:
  "shape_fits ''src'' (Source_mappings [demo_other])
   \<and> plan_entries (Source_mappings [demo_other]) = [(''version: 2'', ''other'', ''/p/models/s/_src_o.yml'')]
   \<and> \<not> (str_lower ''append'' = ''skip'' \<and> os_path_isfile demo_world ''/p/models/s/_src_o.yml'')
   \<and> run_process demo_env ''other'' ''/p'' demo_world = (0, ''with source as (select 1)'')
   \<and> \<not> str_contains ''with source as (select 1)'' ''version: 2''
   \<and> bash_run_and_make_files demo_env ''src'' (Source_mappings [demo_other]) ''append'' ''/p'' demo_world
       = (Inr (), demo_world\<lparr>invoked := [(''other'', ''/p'')],
                   files := (files demo_world)(''/p/models/s/_src_o.yml'' \<mapsto> '')'')\<rparr>)"
proof -
  have h1: "shape_fits ''src'' (Source_mappings [demo_other])"
    by (simp add: shape_fits_def)
  have h2: "plan_entries (Source_mappings [demo_other]) = [(''version: 2'', ''other'', ''/p/models/s/_src_o.yml'')]"
    by (simp add: demo_other_def)
  have h3: "\<not> (str_lower ''append'' = ''skip'' \<and> os_path_isfile demo_world ''/p/models/s/_src_o.yml'')"
    by (simp add: str_lower_append)
  have h4: "run_process demo_env ''other'' ''/p'' demo_world = (0, ''with source as (select 1)'')"
    by (simp add: demo_env_def src_cmd_def)
  have h5: "\<not> str_contains ''with source as (select 1)'' ''version: 2''"
    by simp
  have w: "write_file ''/p/models/s/_src_o.yml'' Mode_a '')''
         (demo_world\<lparr>invoked := invoked demo_world @ [(''other'', ''/p'')]\<rparr>)
      = (Inr (), demo_world\<lparr>invoked := [(''other'', ''/p'')],
                   files := (files demo_world)(''/p/models/s/_src_o.yml'' \<mapsto> '')'')\<rparr>)"
    unfolding write_file_def
    by (simp add: resolve_def os_path_join_def startswith_sep_def demo_dirname_o Let_def)
       (simp add: demo_world_def)
  show ?thesis
    using missing_marker_written_silently [OF h1 h2 h3 h4 h5] h1 h2 h3 h4 h5 w
    by (simp add: str_lower_append)
qed

section \<open>Stripping clean text (C6)\<close>

text \<open>
  The pattern as the claim describes it, following the spec's words: ESC followed by a
  single byte that is in \<open>@\<close> to \<open>Z\<close> or is a backslash, \<open>^\<close> or \<open>_\<close>, or by \<open>[\<close>, parameter
  and intermediate bytes and a final byte in \<open>@\<close> to \<open>~\<close>.
\<close>

definition ansi_pattern_as_described :: regex where
  "ansi_pattern_as_described =
     Seq (Cls [(CHR 0x1B, CHR 0x1B)])
       (Alt (Cls [(CHR ''@'', CHR ''Z''), (CHR 0x5C, CHR 0x5C), (CHR ''^'', CHR ''^''),
                  (CHR ''_'', CHR ''_'')])
            (Seq (Cls [(CHR ''['', CHR ''['')])
              (Seq (Star (Cls [(CHR ''0'', CHR ''?'')]))
                (Seq (Star (Cls [(CHR '' '', CHR ''/'')]))
                     (Cls [(CHR ''@'', CHR ''~'')])))))"

text \<open>
  Claim C6, as amended. Text in which the compiled pattern matches nowhere is returned
  unchanged by the substitution. The compiled pattern's first class is \<open>@\<close> to \<open>Z\<close> and
  backslash to \<open>_\<close>, which includes \<open>]\<close>.
\<close>

theorem strip_clean_text_noop:
  "\<not> re_search regex_ansi_escape_sequences s \<Longrightarrow>
   re_sub_empty regex_ansi_escape_sequences s = s"
  by (rule re_sub_empty_no_match)

theorem strip_clean_text_noop_witness:
  "\<not> re_search regex_ansi_escape_sequences ''version: 2''
   \<and> re_sub_empty regex_ansi_escape_sequences ''version: 2'' = ''version: 2''"
proof -
  have h: "\<not> re_search regex_ansi_escape_sequences ''version: 2''"
    by (simp add: regex_ansi_escape_sequences_def re_match_def in_class_def)
  from strip_clean_text_noop [OF h] h show ?thesis
    by simp
qed

text \<open>
  The claim as stated fails on ESC followed by \<open>]\<close>: the described pattern occurs nowhere
  in this text, and the substitution removes all of it.
\<close>

theorem strip_described_pattern_counterexample:
  "\<not> re_search ansi_pattern_as_described [CHR 0x1B, CHR '']'']
   \<and> re_sub_empty regex_ansi_escape_sequences [CHR 0x1B, CHR '']''] = []"
  by (simp add: ansi_pattern_as_described_def regex_ansi_escape_sequences_def re_match_def
        in_class_def)


section \<open>An empty packages collection (C7)\<close>

text \<open>
  Claim C7. When \<open>packages.yml\<close> is a file of the project and parses to a dictionary whose
  \<open>packages\<close> entry is missing or is an empty list or dictionary, \<open>run_dbt_deps\<close> gets
  through the extraction of the entries and raises the \<open>ValueError\<close> of line 83 (the
  codegen package is not listed); the world is as before, so \<open>dbt deps\<close> was not run.
\<close>

theorem empty_packages_is_missing_package:
  assumes "files w (resolve w (os_path_join project_directory ''packages.yml'')) = Some text"
    and "yaml_safe_load ev text = Inr (YMap kvs)"
    and "map_of kvs (YStr ''packages'') = None
         \<or> map_of kvs (YStr ''packages'') = Some (YSeq [])
         \<or> map_of kvs (YStr ''packages'') = Some (YMap [])"
  shows "run_dbt_deps ev project_directory w = (Inl ValueError, w)"
proof -
  have isfile: "os_path_isfile w (os_path_join project_directory ''packages.yml'')"
    using assms(1) by (simp add: os_path_isfile_def)
  have read: "read_file w (os_path_join project_directory ''packages.yml'') = Inr text"
    using assms(1) by (simp add: read_file_def)
  show ?thesis
    using assms(3)
    by (auto simp: run_dbt_deps_def Let_def isfile read assms(2))
qed

theorem empty_packages_is_missing_package_witness:
  "files demo_world_empty_packages
     (resolve demo_world_empty_packages (os_path_join ''/p'' ''packages.yml''))
     = Some ''packages: []''
   \<and> yaml_safe_load demo_env ''packages: []'' = Inr (YMap [(YStr ''packages'', YSeq [])])
   \<and> map_of [(YStr ''packages'', YSeq [])] (YStr ''packages'') = Some (YSeq [])
   \<and> run_dbt_deps demo_env ''/p'' demo_world_empty_packages
       = (Inl ValueError, demo_world_empty_packages)"
proof -
  have h1: "files demo_world_empty_packages
     (resolve demo_world_empty_packages (os_path_join ''/p'' ''packages.yml''))
     = Some ''packages: []''"
    by (simp add: demo_world_empty_packages_def resolve_def os_path_join_def startswith_sep_def
          endswith_sep_def)
  have h2: "yaml_safe_load demo_env ''packages: []'' = Inr (YMap [(YStr ''packages'', YSeq [])])"
    by (simp add: demo_env_def)
  have h3: "map_of [(YStr ''packages'', YSeq [])] (YStr ''packages'') = None
         \<or> map_of [(YStr ''packages'', YSeq [])] (YStr ''packages'') = Some (YSeq [])
         \<or> map_of [(YStr ''packages'', YSeq [])] (YStr ''packages'') = Some (YMap [])"
    by simp
  show ?thesis
    using empty_packages_is_missing_package [OF h1 h2 h3] h1 h2
    by simp
qed

section \<open>A failing generation command (C8)\<close>

text \<open>
  Claim C8. Let the entries before some entry of the plan run without an exception and
  leave the world \<open>w1\<close>, and let that entry's command be run (it is not skipped) and exit
  with a non-zero status. Then the executor ends with \<open>CalledProcessError\<close> in the world
  \<open>w1\<close> with only this command added to the record of commands: the files are those the
  earlier entries left, nothing is written for the failing entry, and no later entry is
  run.
\<close>

theorem failed_generation_aborts:
  assumes "shape_fits cmd_type cm"
    and "plan_entries cm = earlier @ (marker, command, destination) # later"
    and "run_entries ev earlier if_exists pd w = (Inr (), w1)"
    and "\<not> (str_lower if_exists = ''skip'' \<and> os_path_isfile w1 destination)"
    and "run_process ev command pd w1 = (returncode, stdout)"
    and "returncode \<noteq> 0"
  shows "bash_run_and_make_files ev cmd_type cm if_exists pd w =
         (Inl (CalledProcessError returncode), w1\<lparr>invoked := invoked w1 @ [(command, pd)]\<rparr>)"
  using run_and_make_file_run [OF assms(4,5), of marker] assms(6)
  by (simp add: bash_run_and_make_files_entries [OF assms(1)] assms(2,3) run_entries_append)


theorem failed_generation_aborts_witness:
  "shape_fits ''src'' (Source_mappings [demo_source, demo_failing, demo_other])
   \<and> plan_entries (Source_mappings [demo_source, demo_failing, demo_other])
       = [(''version: 2'', src_cmd ''s'' ''lake'' True, ''/p/models/s/_src_s.yml'')]
         @ (''version: 2'', ''false'', ''/p/models/s/_src_f.yml'')
         # [(''version: 2'', ''other'', ''/p/models/s/_src_o.yml'')]
   \<and> run_entries demo_env [(''version: 2'', src_cmd ''s'' ''lake'' True, ''/p/models/s/_src_s.yml'')]
         ''append'' ''/p'' demo_world = (Inr (), demo_world_1)
   \<and> \<not> (str_lower ''append'' = ''skip'' \<and> os_path_isfile demo_world_1 ''/p/models/s/_src_f.yml'')
   \<and> run_process demo_env ''false'' ''/p'' demo_world_1 = (1, [])
   \<and> (1::int) \<noteq> 0
   \<and> bash_run_and_make_files demo_env ''src''
         (Source_mappings [demo_source, demo_failing, demo_other]) ''append'' ''/p'' demo_world
       = (Inl (CalledProcessError 1),
          demo_world_1\<lparr>invoked := invoked demo_world_1 @ [(''false'', ''/p'')]\<rparr>)"
proof -
  have h1: "shape_fits ''src'' (Source_mappings [demo_source, demo_failing, demo_other])"
    by (simp add: shape_fits_def)
  have h2: "plan_entries (Source_mappings [demo_source, demo_failing, demo_other])
       = [(''version: 2'', src_cmd ''s'' ''lake'' True, ''/p/models/s/_src_s.yml'')]
         @ (''version: 2'', ''false'', ''/p/models/s/_src_f.yml'')
         # [(''version: 2'', ''other'', ''/p/models/s/_src_o.yml'')]"
    by (simp add: demo_source_def demo_failing_def demo_other_def)
  have h3: "run_entries demo_env [(''version: 2'', src_cmd ''s'' ''lake'' True, ''/p/models/s/_src_s.yml'')]
         ''append'' ''/p'' demo_world = (Inr (), demo_world_1)"
    by (simp add: demo_run_source)
  have h4: "\<not> (str_lower ''append'' = ''skip'' \<and> os_path_isfile demo_world_1 ''/p/models/s/_src_f.yml'')"
    by (simp add: str_lower_append)
  have h5: "run_process demo_env ''false'' ''/p'' demo_world_1 = (1, [])"
    by (simp add: demo_env_def src_cmd_def)
  have h6: "(1::int) \<noteq> 0"
    by simp
  show ?thesis
    using failed_generation_aborts [OF h1 h2 h3 h4 h5 h6] h1 h2 h3 h4 h5
    by simp
qed

section \<open>Policies other than skip and replace (C9)\<close>

text \<open>
  Claim C9. A policy whose lower-cased form is neither \<open>skip\<close> nor \<open>replace\<close> is not
  rejected and makes the executor behave as under \<open>append\<close>: for each entry the command
  is run and the destination is opened for appending. Two policies with the same
  lower-cased form behave alike, so both tests ignore case.
\<close>

theorem unknown_policy_is_append:
  "(str_lower if_exists \<noteq> ''skip'' \<and> str_lower if_exists \<noteq> ''replace'' \<longrightarrow>
      bash_run_and_make_files ev cmd_type cm if_exists pd w =
      bash_run_and_make_files ev cmd_type cm ''append'' pd w
      \<and> run_and_make_file ev marker command destination if_exists pd w =
        (case subprocess_run ev command pd w of
           (Inl e, w1) \<Rightarrow> (Inl e, w1)
         | (Inr stdout, w1) \<Rightarrow> write_file destination Mode_a (clean_output marker stdout) w1))
   \<and> (str_lower if_exists = str_lower other \<longrightarrow>
      bash_run_and_make_files ev cmd_type cm if_exists pd w =
      bash_run_and_make_files ev cmd_type cm other pd w)"
proof (intro conjI impI)
  assume "str_lower if_exists \<noteq> ''skip'' \<and> str_lower if_exists \<noteq> ''replace''"
  then have "same_policy if_exists ''append''"
    by (simp add: same_policy_def str_lower_append)
  then show "bash_run_and_make_files ev cmd_type cm if_exists pd w =
      bash_run_and_make_files ev cmd_type cm ''append'' pd w"
    by (rule bash_run_and_make_files_same_policy)
next
  assume "str_lower if_exists \<noteq> ''skip'' \<and> str_lower if_exists \<noteq> ''replace''"
  then show "run_and_make_file ev marker command destination if_exists pd w =
        (case subprocess_run ev command pd w of
           (Inl e, w1) \<Rightarrow> (Inl e, w1)
         | (Inr stdout, w1) \<Rightarrow> write_file destination Mode_a (clean_output marker stdout) w1)"
    by (simp add: run_and_make_file_def Let_def split: prod.splits sum.splits)
next
  assume "str_lower if_exists = str_lower other"
  then have "same_policy if_exists other"
    by (simp add: same_policy_def)
  then show "bash_run_and_make_files ev cmd_type cm if_exists pd w =
      bash_run_and_make_files ev cmd_type cm other pd w"
    by (rule bash_run_and_make_files_same_policy)
qed


theorem unknown_policy_is_append_witness:
  "str_lower ''Merge'' \<noteq> ''skip'' \<and> str_lower ''Merge'' \<noteq> ''replace''
   \<and> str_lower ''Merge'' = str_lower ''MERGE''
   \<and> bash_run_and_make_files demo_env ''src'' (Source_mappings [demo_source]) ''Merge'' ''/p'' demo_world
       = bash_run_and_make_files demo_env ''src'' (Source_mappings [demo_source]) ''append'' ''/p'' demo_world
   \<and> run_and_make_file demo_env ''version: 2'' ''other'' ''/p/models/s/_src_o.yml'' ''Merge'' ''/p'' demo_world
       = (case subprocess_run demo_env ''other'' ''/p'' demo_world of
            (Inl e, w1) \<Rightarrow> (Inl e, w1)
          | (Inr stdout, w1) \<Rightarrow>
              write_file ''/p/models/s/_src_o.yml'' Mode_a (clean_output ''version: 2'' stdout) w1)
   \<and> bash_run_and_make_files demo_env ''src'' (Source_mappings [demo_source]) ''Merge'' ''/p'' demo_world
       = bash_run_and_make_files demo_env ''src'' (Source_mappings [demo_source]) ''MERGE'' ''/p'' demo_world"
proof -
  have l: "str_lower ''Merge'' \<noteq> ''skip'' \<and> str_lower ''Merge'' \<noteq> ''replace''"
    by (simp add: str_lower_Merge)
  have e: "str_lower ''Merge'' = str_lower ''MERGE''"
    by (simp add: str_lower_Merge)
  from unknown_policy_is_append [of "''Merge''" demo_env "''src''" "Source_mappings [demo_source]"
      "''/p''" demo_world "''version: 2''" "''other''" "''/p/models/s/_src_o.yml''" "''MERGE''"] l e
  show ?thesis
    by blast
qed


section \<open>Running an entry several times (C4)\<close>

text \<open>
  Claim C4, as amended. Take a plan of one entry whose command gives the same output at
  every invocation and whose destination can be written. Under \<open>append\<close>, and under any
  policy that is neither \<open>skip\<close> nor \<open>replace\<close>, running the executor \<open>n\<close> times adds \<open>n\<close>
  copies of the cleaned output to what the destination held (so a destination that was
  missing or empty holds exactly \<open>n\<close> copies). Under \<open>skip\<close> with a destination that does
  not exist yet, the first run appends and every later run skips: after one or more runs
  the destination holds one copy.
\<close>

theorem repeated_append:
  assumes "shape_fits cmd_type cm"
    and "plan_entries cm = [(marker, command, destination)]"
    and "\<forall>w'. run_process ev command pd w' = (0, stdout)"
    and "writable w destination"
  shows "(str_lower if_exists \<noteq> ''skip'' \<and> str_lower if_exists \<noteq> ''replace'' \<longrightarrow>
           (\<exists>w'. repeat_run n (bash_run_and_make_files ev cmd_type cm if_exists pd) w = (Inr (), w')
              \<and> file_contents w' destination
                  = file_contents w destination @ concat (replicate n (clean_output marker stdout))))
       \<and> (str_lower if_exists = ''skip'' \<and> \<not> os_path_isfile w destination \<and> 0 < n \<longrightarrow>
           (\<exists>w'. repeat_run n (bash_run_and_make_files ev cmd_type cm if_exists pd) w = (Inr (), w')
              \<and> file_contents w' destination = clean_output marker stdout))"
proof -
  have eq: "bash_run_and_make_files ev cmd_type cm if_exists pd
            = run_and_make_file ev marker command destination if_exists pd"
    by (rule ext) (rule single_entry_step [OF assms(1,2)])
  show ?thesis
  proof (intro conjI impI)
    assume "str_lower if_exists \<noteq> ''skip'' \<and> str_lower if_exists \<noteq> ''replace''"
    then show "\<exists>w'. repeat_run n (bash_run_and_make_files ev cmd_type cm if_exists pd) w = (Inr (), w')
              \<and> file_contents w' destination
                  = file_contents w destination @ concat (replicate n (clean_output marker stdout))"
      unfolding eq using repeat_run_append [OF _ _ assms(3,4)] by blast
  next
    assume a: "str_lower if_exists = ''skip'' \<and> \<not> os_path_isfile w destination \<and> 0 < n"
    then obtain m where n: "n = Suc m"
      by (cases n) auto
    from assms(3) have "run_process ev command pd w = (0, stdout)"
      by simp
    with a show "\<exists>w'. repeat_run n (bash_run_and_make_files ev cmd_type cm if_exists pd) w = (Inr (), w')
              \<and> file_contents w' destination = clean_output marker stdout"
      unfolding eq n using repeat_run_skip_fresh [OF _ _ _ assms(4)] by blast
  qed
qed


theorem repeated_append_witness:
  "shape_fits ''src'' (Source_mappings [demo_source])
   \<and> plan_entries (Source_mappings [demo_source])
       = [(''version: 2'', src_cmd ''s'' ''lake'' True, ''/p/models/s/_src_s.yml'')]
   \<and> (\<forall>w'. run_process demo_env (src_cmd ''s'' ''lake'' True) ''/p'' w' = (0, demo_output))
   \<and> writable demo_world ''/p/models/s/_src_s.yml''
   \<and> str_lower ''append'' \<noteq> ''skip'' \<and> str_lower ''append'' \<noteq> ''replace''
   \<and> str_lower ''skip'' = ''skip'' \<and> \<not> os_path_isfile demo_world ''/p/models/s/_src_s.yml''
   \<and> (\<exists>w'. repeat_run 3 (bash_run_and_make_files demo_env ''src'' (Source_mappings [demo_source])
                 ''append'' ''/p'') demo_world = (Inr (), w')
          \<and> file_contents w' ''/p/models/s/_src_s.yml''
              = concat (replicate 3 (''version: 2'' @ [CHR 0x0A] @ ''sources:'')))
   \<and> (\<exists>w'. repeat_run 3 (bash_run_and_make_files demo_env ''src'' (Source_mappings [demo_source])
                 ''skip'' ''/p'') demo_world = (Inr (), w')
          \<and> file_contents w' ''/p/models/s/_src_s.yml'' = ''version: 2'' @ [CHR 0x0A] @ ''sources:'')"
proof -
  have h1: "shape_fits ''src'' (Source_mappings [demo_source])"
    by (simp add: shape_fits_def)
  have l: "str_lower ''append'' \<noteq> ''skip'' \<and> str_lower ''append'' \<noteq> ''replace''"
    by (simp add: str_lower_append)
  have k: "str_lower ''skip'' = ''skip'' \<and> \<not> os_path_isfile demo_world ''/p/models/s/_src_s.yml'' \<and> (0::nat) < 3"
    by (simp add: str_lower_skip demo_fresh)
  have e: "file_contents demo_world ''/p/models/s/_src_s.yml'' = []"
    using demo_fresh by (simp add: file_contents_def os_path_isfile_def)
  note a = repeated_append [OF h1 demo_entries demo_same_output demo_writable, of "''append''" 3]
  note b = repeated_append [OF h1 demo_entries demo_same_output demo_writable, of "''skip''" 3]
  from a l e have 1: "\<exists>w'. repeat_run 3 (bash_run_and_make_files demo_env ''src'' (Source_mappings [demo_source])
                 ''append'' ''/p'') demo_world = (Inr (), w')
          \<and> file_contents w' ''/p/models/s/_src_s.yml''
              = concat (replicate 3 (''version: 2'' @ [CHR 0x0A] @ ''sources:''))"
    by (simp only: demo_clean_output append_Nil simp_thms)
  from b k have 2: "\<exists>w'. repeat_run 3 (bash_run_and_make_files demo_env ''src'' (Source_mappings [demo_source])
                 ''skip'' ''/p'') demo_world = (Inr (), w')
          \<and> file_contents w' ''/p/models/s/_src_s.yml'' = ''version: 2'' @ [CHR 0x0A] @ ''sources:''"
    by (simp only: demo_clean_output simp_thms)
  from h1 demo_entries demo_same_output demo_writable l k 1 2 show ?thesis
    by blast
qed

text \<open>
  The claim as stated fails under \<open>skip\<close>: two runs on a destination that did not exist
  leave one copy of the cleaned output, not two.
\<close>

theorem repeated_skip_counterexample:
  "str_lower ''skip'' = ''skip''
   \<and> \<not> os_path_isfile demo_world ''/p/models/s/_src_s.yml''
   \<and> (\<forall>w'. run_process demo_env (src_cmd ''s'' ''lake'' True) ''/p'' w' = (0, demo_output))
   \<and> file_contents
        (snd (repeat_run 2 (bash_run_and_make_files demo_env ''src'' (Source_mappings [demo_source])
                ''skip'' ''/p'') demo_world))
        ''/p/models/s/_src_s.yml''
      = clean_output ''version: 2'' demo_output
   \<and> clean_output ''version: 2'' demo_output
      \<noteq> concat (replicate 2 (clean_output ''version: 2'' demo_output))"
proof -
  have eq: "bash_run_and_make_files demo_env ''src'' (Source_mappings [demo_source]) ''skip'' ''/p''
            = run_and_make_file demo_env ''version: 2'' (src_cmd ''s'' ''lake'' True)
                ''/p/models/s/_src_s.yml'' ''skip'' ''/p''"
    by (rule ext) (rule single_entry_step [OF _ demo_entries], simp add: shape_fits_def)
  have r: "run_process demo_env (src_cmd ''s'' ''lake'' True) ''/p'' demo_world = (0, demo_output)"
    using demo_same_output by simp
  have two: "(2::nat) = Suc 1"
    by simp
  from repeat_run_skip_fresh [OF str_lower_skip demo_fresh r demo_writable, of 1 "''version: 2''"]
  have "file_contents
        (snd (repeat_run 2 (bash_run_and_make_files demo_env ''src'' (Source_mappings [demo_source])
                ''skip'' ''/p'') demo_world))
        ''/p/models/s/_src_s.yml''
      = clean_output ''version: 2'' demo_output"
    unfolding eq two by auto
  moreover have "clean_output ''version: 2'' demo_output
      \<noteq> concat (replicate 2 (clean_output ''version: 2'' demo_output))"
    by (simp add: demo_clean_output numeral_2_eq_2)
  ultimately show ?thesis
    using str_lower_skip demo_fresh demo_same_output by blast
qed


section \<open>The source plan (C1)\<close>

text \<open>
  Claim C1, as amended. Whenever each per-schema directory exists or can be made,
  \<open>source_cmd_generator\<close> returns one entry per schema name, in the order of the input,
  duplicates included; the destination path of the entry for \<open>s\<close> is
  \<open>os.path.join(os.path.join(root, s), '_src_' + s + '.yml')\<close>, which is the string
  \<open>root/s/_src_s.yml\<close> when the root is not empty and does not end with a separator and
  \<open>s\<close> is not empty and neither starts nor ends with one; and the destination paths are
  pairwise distinct when the schema names are pairwise distinct and none of them starts
  with a separator.
\<close>

theorem plan_sources_entries:
  assumes "\<forall>s \<in> set schema_names. makedirs_ok w (os_path_join output_root s)"
  shows "\<exists>plan w'.
      source_cmd_generator database_name schema_names generate_columns output_root w = (Inr plan, w')
    \<and> map fst plan = schema_names
    \<and> map (\<lambda>(s, d). source_destination_path d) plan
        = map (\<lambda>s. os_path_join (os_path_join output_root s) (''_src_'' @ s @ ''.yml'')) schema_names
    \<and> (output_root \<noteq> [] \<and> \<not> endswith_sep output_root
         \<and> (\<forall>s \<in> set schema_names. s \<noteq> [] \<and> \<not> startswith_sep s \<and> \<not> endswith_sep s) \<longrightarrow>
        map (\<lambda>(s, d). source_destination_path d) plan
        = map (\<lambda>s. output_root @ ''/'' @ s @ ''/_src_'' @ s @ ''.yml'') schema_names)
    \<and> (distinct schema_names \<and> (\<forall>s \<in> set schema_names. \<not> startswith_sep s) \<longrightarrow>
        distinct (map (\<lambda>(s, d). source_destination_path d) plan))"
proof -
  let ?plan = "map (source_entry database_name generate_columns output_root) schema_names"
  from source_cmd_generator_ok [OF assms] obtain w' where
    g: "source_cmd_generator database_name schema_names generate_columns output_root w = (Inr ?plan, w')"
    by blast
  have names: "map fst ?plan = schema_names"
    by (simp add: source_entry_def comp_def)
  have paths: "map (\<lambda>(s, d). source_destination_path d) ?plan = map (src_path output_root) schema_names"
    by (simp add: source_entry_def comp_def src_path_def)
  have literal: "map (src_path output_root) schema_names
        = map (\<lambda>s. output_root @ ''/'' @ s @ ''/_src_'' @ s @ ''.yml'') schema_names"
    if "output_root \<noteq> [] \<and> \<not> endswith_sep output_root
         \<and> (\<forall>s \<in> set schema_names. s \<noteq> [] \<and> \<not> startswith_sep s \<and> \<not> endswith_sep s)"
    using that by (intro map_cong refl src_path_literal) auto
  have dist: "distinct (map (src_path output_root) schema_names)"
    if "distinct schema_names \<and> (\<forall>s \<in> set schema_names. \<not> startswith_sep s)"
  proof -
    from that have "inj_on (src_path output_root) (set schema_names)"
      by (intro inj_onI) (auto dest: src_path_inj)
    with that show ?thesis
      by (simp add: distinct_map)
  qed
  show ?thesis
    using g names paths literal dist
    unfolding src_path_def by (intro exI [of _ ?plan] exI [of _ w']) (simp del: map_map)
qed

theorem plan_sources_entries_witness:
  "makedirs_ok demo_world (os_path_join ''/p/models'' ''s'')
   \<and> makedirs_ok demo_world (os_path_join ''/p/models'' ''t'')
   \<and> distinct [''s'', ''t'']
   \<and> (\<exists>plan w'. source_cmd_generator ''lake'' [''s'', ''t''] True ''/p/models'' demo_world = (Inr plan, w')
        \<and> map fst plan = [''s'', ''t'']
        \<and> map (\<lambda>(s, d). source_destination_path d) plan
            = [''/p/models/s/_src_s.yml'', ''/p/models/t/_src_t.yml'']
        \<and> distinct (map (\<lambda>(s, d). source_destination_path d) plan))"
proof -
  have c: "''/p/models'' \<noteq> [] \<and> \<not> endswith_sep ''/p/models''
         \<and> (\<forall>s \<in> set [''s'', ''t'']. s \<noteq> [] \<and> \<not> startswith_sep s \<and> \<not> endswith_sep s)"
    by (simp add: startswith_sep_def endswith_sep_def)
  have d: "distinct [''s'', ''t''] \<and> (\<forall>s \<in> set [''s'', ''t'']. \<not> startswith_sep s)"
    by (simp add: startswith_sep_def)
  from plan_sources_entries [OF demo_makedirs_ok, of "''lake''" True]
  obtain plan where "\<exists>w'.
      source_cmd_generator ''lake'' [''s'', ''t''] True ''/p/models'' demo_world = (Inr plan, w')
    \<and> map fst plan = [''s'', ''t'']
    \<and> map (\<lambda>(s, d). source_destination_path d) plan
        = map (\<lambda>s. os_path_join (os_path_join ''/p/models'' s) (''_src_'' @ s @ ''.yml'')) [''s'', ''t'']
    \<and> (''/p/models'' \<noteq> [] \<and> \<not> endswith_sep ''/p/models''
         \<and> (\<forall>s \<in> set [''s'', ''t'']. s \<noteq> [] \<and> \<not> startswith_sep s \<and> \<not> endswith_sep s) \<longrightarrow>
        map (\<lambda>(s, d). source_destination_path d) plan
        = map (\<lambda>s. ''/p/models'' @ ''/'' @ s @ ''/_src_'' @ s @ ''.yml'') [''s'', ''t''])
    \<and> (distinct [''s'', ''t''] \<and> (\<forall>s \<in> set [''s'', ''t'']. \<not> startswith_sep s) \<longrightarrow>
        distinct (map (\<lambda>(s, d). source_destination_path d) plan))" ..
  then obtain w' where all:
     "source_cmd_generator ''lake'' [''s'', ''t''] True ''/p/models'' demo_world = (Inr plan, w')
    \<and> map fst plan = [''s'', ''t'']
    \<and> map (\<lambda>(s, d). source_destination_path d) plan
        = map (\<lambda>s. os_path_join (os_path_join ''/p/models'' s) (''_src_'' @ s @ ''.yml'')) [''s'', ''t'']
    \<and> (''/p/models'' \<noteq> [] \<and> \<not> endswith_sep ''/p/models''
         \<and> (\<forall>s \<in> set [''s'', ''t'']. s \<noteq> [] \<and> \<not> startswith_sep s \<and> \<not> endswith_sep s) \<longrightarrow>
        map (\<lambda>(s, d). source_destination_path d) plan
        = map (\<lambda>s. ''/p/models'' @ ''/'' @ s @ ''/_src_'' @ s @ ''.yml'') [''s'', ''t''])
    \<and> (distinct [''s'', ''t''] \<and> (\<forall>s \<in> set [''s'', ''t'']. \<not> startswith_sep s) \<longrightarrow>
        distinct (map (\<lambda>(s, d). source_destination_path d) plan))" ..
  note g = all [THEN conjunct1]
    and n = all [THEN conjunct2, THEN conjunct1]
    and l = all [THEN conjunct2, THEN conjunct2, THEN conjunct2, THEN conjunct1]
    and i = all [THEN conjunct2, THEN conjunct2, THEN conjunct2, THEN conjunct2]
  from l c have p: "map (\<lambda>(s, d). source_destination_path d) plan
        = map (\<lambda>s. ''/p/models'' @ ''/'' @ s @ ''/_src_'' @ s @ ''.yml'') [''s'', ''t'']"
    by (rule mp)
  from i d have q: "distinct (map (\<lambda>(s, d). source_destination_path d) plan)"
    by (rule mp)
  have m: "makedirs_ok demo_world (os_path_join ''/p/models'' ''s'')
    \<and> makedirs_ok demo_world (os_path_join ''/p/models'' ''t'')"
    using demo_makedirs_ok by simp
  have e: "map (\<lambda>s. ''/p/models'' @ ''/'' @ s @ ''/_src_'' @ s @ ''.yml'') [''s'', ''t'']
     = [''/p/models/s/_src_s.yml'', ''/p/models/t/_src_t.yml'']"
    by simp
  from g n p [unfolded e] q have
    "\<exists>plan w'. source_cmd_generator ''lake'' [''s'', ''t''] True ''/p/models'' demo_world = (Inr plan, w')
        \<and> map fst plan = [''s'', ''t'']
        \<and> map (\<lambda>(s, d). source_destination_path d) plan
            = [''/p/models/s/_src_s.yml'', ''/p/models/t/_src_t.yml'']
        \<and> distinct (map (\<lambda>(s, d). source_destination_path d) plan)"
    by (intro exI conjI)
  moreover have "distinct [''s'', ''t'']"
    by simp
  moreover note m [THEN conjunct1] m [THEN conjunct2]
  ultimately show ?thesis
    by (intro conjI)
qed

text \<open>
  The claim as stated fails when a schema name is repeated: both entries get the same
  destination path.
\<close>

theorem plan_sources_duplicate_counterexample:
  "source_cmd_generator ''lake'' [''s'', ''s''] True ''/p/models'' demo_world
     = (Inr [demo_source, demo_source], demo_world)
   \<and> map (\<lambda>(s, d). source_destination_path d) [demo_source, demo_source]
       = [''/p/models/s/_src_s.yml'', ''/p/models/s/_src_s.yml'']
   \<and> \<not> distinct (map (\<lambda>(s, d). source_destination_path d) [demo_source, demo_source])"
proof -
  have "\<forall>s \<in> set [''s'', ''s'']. resolve demo_world (os_path_join ''/p/models'' s) \<in> dirs demo_world"
    by (simp add: resolve_def os_path_join_def startswith_sep_def endswith_sep_def)
       (simp add: demo_world_def)
  from source_cmd_generator_existing [OF this, of "''lake''" True]
  have "source_cmd_generator ''lake'' [''s'', ''s''] True ''/p/models'' demo_world
     = (Inr [demo_source, demo_source], demo_world)"
    by (simp add: source_entry_def demo_source_def os_path_join_def startswith_sep_def
          endswith_sep_def)
  then show ?thesis
    by (simp add: demo_source_def)
qed


section \<open>The directory made in the base-model phase (C10)\<close>

text \<open>
  Claim C10. Let the source plan be made for the models directory of the project \<open>pd\<close>,
  let it be scanned and let \<open>all_base_commands_generator\<close> run on the result, in a world
  with working directory \<open>cwd\<close>. For every table of every source \<open>s\<close> of the base-model
  plan: the directory made is \<open>models/s\<close> under \<open>cwd\<close>; the only directories made are
  these and their ancestors; the destination of the table's model is
  \<open>stg_s__t.sql\<close> in the folder \<open>s\<close> of the project's models directory; and, for \<open>cwd\<close>
  and \<open>pd\<close> absolute without a separator at the end, the directory made is that folder
  exactly when \<open>cwd\<close> is the project directory (and \<open>s\<close> is a relative name). Run from
  elsewhere, the folder of the destination is not the directory made.
\<close>

theorem base_directory_mismatch:
  assumes "source_cmd_generator db schemas gc (os_path_join pd ''models'') w0 = (Inr source_plan, w1)"
    and "src_yml_scan ev source_plan w = Inr scanned"
    and "all_base_commands_generator scanned w = (Inr plan, w')"
    and "(s, table_mappings) \<in> set plan"
    and "(t, td) \<in> set table_mappings"
  shows "os_path_join (cwd w) (''models/'' @ s) \<in> dirs w'
    \<and> dirs w' \<subseteq> dirs w \<union> (\<Union>x \<in> set schemas.
          insert (os_path_join (cwd w) (''models/'' @ x))
                 (set (parents (os_path_join (cwd w) (''models/'' @ x)))))
    \<and> file_name td = os_path_join (os_path_join (os_path_join pd ''models'') s)
                        (''stg_'' @ s @ ''__'' @ py_str t @ ''.sql'')
    \<and> (normalized_abs (cwd w) \<and> normalized_abs pd \<longrightarrow>
         (os_path_join (cwd w) (''models/'' @ s) = os_path_join (os_path_join pd ''models'') s)
         = (cwd w = pd \<and> \<not> startswith_sep s))"
proof -
  note g = source_cmd_generator_result [OF assms(1)]
  note b = all_base_commands_generator_result [OF assms(3)]
  from b assms(4) obtain md where
    md: "(s, md) \<in> set scanned" "table_mappings = map (base_entry s) (tables md)"
    by (auto simp: base_plan_def)
  from md(2) assms(5) obtain td0 where
    td0: "(t, td0) \<in> set (tables md)" "file_name td = file_name td0"
    by (auto simp: base_entry_def)
  from src_yml_scan_result [OF assms(2) md(1)] obtain d where
    d: "(s, d) \<in> set source_plan" "destination_folder md = destination_folder d"
      "\<forall>(t, td) \<in> set (tables md).
         file_name td = os_path_join (destination_folder d) (''stg_'' @ s @ ''__'' @ py_str t @ ''.sql'')"
    by blast
  from g d(1) have folder: "destination_folder d = os_path_join (os_path_join pd ''models'') s"
    and member: "s \<in> set schemas"
    by (auto simp: source_entry_def)
  have 1: "os_path_join (cwd w) (''models/'' @ s) \<in> dirs w'"
    using b md(1) td0(1) by (auto simp: models_dir_def resolve_def)
  have names: "fst ` set scanned \<subseteq> set schemas"
  proof
    fix x
    assume "x \<in> fst ` set scanned"
    then obtain m where "(x, m) \<in> set scanned"
      by auto
    from src_yml_scan_result [OF assms(2) this] g show "x \<in> set schemas"
      by (auto simp: source_entry_def)
  qed
  have 2: "dirs w' \<subseteq> dirs w \<union> (\<Union>x \<in> set schemas.
          insert (os_path_join (cwd w) (''models/'' @ x))
                 (set (parents (os_path_join (cwd w) (''models/'' @ x)))))"
  proof
    fix a
    assume "a \<in> dirs w'"
    with b have "a \<in> dirs w \<or> (\<exists>(x, m) \<in> set scanned.
         a \<in> insert (models_dir w x) (set (parents (models_dir w x))))"
      by blast
    with names show "a \<in> dirs w \<union> (\<Union>x \<in> set schemas.
          insert (os_path_join (cwd w) (''models/'' @ x))
                 (set (parents (os_path_join (cwd w) (''models/'' @ x)))))"
      unfolding models_dir_def resolve_def by fastforce
  qed
  have 3: "file_name td = os_path_join (os_path_join (os_path_join pd ''models'') s)
                        (''stg_'' @ s @ ''__'' @ py_str t @ ''.sql'')"
    using d(3) td0 folder by auto
  from 1 2 3 same_models_folder [of "cwd w" pd s] show ?thesis
    by blast
qed

theorem base_directory_mismatch_witness:
  "source_cmd_generator ''lake'' [''s''] True (os_path_join ''/p'' ''models'') demo_world
     = (Inr [demo_source], demo_world)
   \<and> src_yml_scan demo_env [demo_source] demo_world_elsewhere = Inr [demo_scanned]
   \<and> normalized_abs (cwd demo_world_elsewhere) \<and> normalized_abs ''/p''
   \<and> cwd demo_world_elsewhere \<noteq> ''/p''
   \<and> (\<exists>w'. all_base_commands_generator [demo_scanned] demo_world_elsewhere
              = (Inr [(''s'', [demo_base_table])], w')
          \<and> os_path_join (cwd demo_world_elsewhere) (''models/'' @ ''s'') \<in> dirs w'
          \<and> file_name (snd demo_base_table)
              = os_path_join (os_path_join (os_path_join ''/p'' ''models'') ''s'')
                  (''stg_'' @ ''s'' @ ''__'' @ py_str (YStr ''t'') @ ''.sql'')
          \<and> os_path_join (cwd demo_world_elsewhere) (''models/'' @ ''s'')
              \<noteq> os_path_join (os_path_join ''/p'' ''models'') ''s'')"
proof -
  have n: "normalized_abs (cwd demo_world_elsewhere) \<and> normalized_abs ''/p''"
    by (simp add: normalized_abs_def startswith_sep_def endswith_sep_def demo_world_elsewhere_def)
  have c: "cwd demo_world_elsewhere \<noteq> ''/p''"
    by (simp add: demo_world_elsewhere_def)
  have "\<forall>(s, md) \<in> set [demo_scanned]. makedirs_ok demo_world_elsewhere (''models/'' @ s)"
    using demo_makedirs_elsewhere by (simp add: demo_scanned_def)
  from all_base_commands_generator_ok [OF this] obtain w' where
    "all_base_commands_generator [demo_scanned] demo_world_elsewhere
       = (Inr (base_plan [demo_scanned]), w')"
    by blast
  moreover have "base_plan [demo_scanned] = [(''s'', [demo_base_table])]"
    by (simp add: base_plan_def demo_scanned_def base_entry_def demo_base_table_def)
  ultimately have b: "all_base_commands_generator [demo_scanned] demo_world_elsewhere
       = (Inr [(''s'', [demo_base_table])], w')"
    by simp
  have m1: "(''s'', [demo_base_table]) \<in> set [(''s'', [demo_base_table])]"
    by simp
  have m2: "(YStr ''t'', snd demo_base_table) \<in> set [demo_base_table]"
    by (simp add: demo_base_table_def)
  note t = base_directory_mismatch [OF demo_source_plan demo_scan_elsewhere b m1 m2]
  from t have 1: "os_path_join (cwd demo_world_elsewhere) (''models/'' @ ''s'') \<in> dirs w'"
    by (rule conjunct1)
  from t have 3: "file_name (snd demo_base_table)
              = os_path_join (os_path_join (os_path_join ''/p'' ''models'') ''s'')
                  (''stg_'' @ ''s'' @ ''__'' @ py_str (YStr ''t'') @ ''.sql'')"
    by blast
  from t n c have 4: "os_path_join (cwd demo_world_elsewhere) (''models/'' @ ''s'')
              \<noteq> os_path_join (os_path_join ''/p'' ''models'') ''s''"
    by blast
  from b 1 3 4 have "\<exists>w'. all_base_commands_generator [demo_scanned] demo_world_elsewhere
              = (Inr [(''s'', [demo_base_table])], w')
          \<and> os_path_join (cwd demo_world_elsewhere) (''models/'' @ ''s'') \<in> dirs w'
          \<and> file_name (snd demo_base_table)
              = os_path_join (os_path_join (os_path_join ''/p'' ''models'') ''s'')
                  (''stg_'' @ ''s'' @ ''__'' @ py_str (YStr ''t'') @ ''.sql'')
          \<and> os_path_join (cwd demo_world_elsewhere) (''models/'' @ ''s'')
              \<noteq> os_path_join (os_path_join ''/p'' ''models'') ''s''"
    by (intro exI conjI)
  with demo_source_plan demo_scan_elsewhere n c show ?thesis
    by (intro conjI) (erule conjunct1 | erule conjunct2 | assumption)+
qed

section \<open>Running the pipeline again under skip (C3)\<close>

text \<open>
  Claim C3, as amended. Let a run of the pipeline under the policy \<open>skip\<close> end without an
  exception, and let the pipeline be run again under \<open>skip\<close> in the world the first run
  left, where it finds the same project. Then the second run returns; it leaves every
  file and every directory as the first run left them; and the only command it can have
  run is \<open>dbt deps\<close>: no generation command is run.
\<close>

theorem skip_rerun_changes_nothing:
  assumes skip: "str_lower if_exists = ''skip''"
    and first: "pipeline ev db schemas custom if_exists w = Some (Inr (), w1)"
    and same: "fetch_dbt_project w1 custom = fetch_dbt_project w custom"
  shows "\<exists>r w2 pd. pipeline ev db schemas custom if_exists w1 = Some (r, w2)
           \<and> files w2 = files w1 \<and> dirs w2 = dirs w1
           \<and> (invoked w2 = invoked w1 \<or> invoked w2 = invoked w1 @ [(''dbt deps'', pd)])"
proof -
  from pipeline_success [OF first] obtain pd wA plan wB wC scanned bplan wD where
    fetch: "fetch_dbt_project w custom = Some (Inr pd)"
    and deps: "run_dbt_deps ev pd w = (Inr (), wA)"
    and gen: "source_cmd_generator db schemas True (os_path_join pd ''models'') wA = (Inr plan, wB)"
    and ex1: "bash_run_and_make_files ev ''src'' (Source_mappings plan) if_exists pd wB = (Inr (), wC)"
    and scan: "src_yml_scan ev plan wC = Inr scanned"
    and bgen: "all_base_commands_generator scanned wC = (Inr bplan, wD)"
    and ex2: "bash_run_and_make_files ev ''base'' (Base_mappings bplan) if_exists pd wD = (Inr (), w1)"
    by blast
  let ?root = "os_path_join pd ''models''"
  let ?src = "plan_entries (Source_mappings plan)"
  let ?base = "plan_entries (Base_mappings bplan)"
  note fB = source_cmd_generator_result [OF gen]
  from fB have plan: "plan = map (source_entry db True ?root) schemas"
    by simp
  from ex1 have run1: "run_entries ev ?src if_exists pd wB = (Inr (), wC)"
    by (simp add: bash_run_and_make_files_entries shape_fits_def)
  note fC = run_entries_frame [OF run1]
  note filesC = run_entries_all_files [OF run1]
  note fD = all_base_commands_generator_result [OF bgen]
  from fD have bplan: "bplan = base_plan scanned"
    by simp
  from ex2 have run2: "run_entries ev ?base if_exists pd wD = (Inr (), w1)"
    by (simp add: bash_run_and_make_files_entries shape_fits_def)
  note f1 = run_entries_frame [OF run2]
  note files1 = run_entries_all_files [OF run2]
  have cwd1: "cwd w1 = cwd wC" "cwd wC = cwd wB" "cwd wB = cwd wA"
    using f1 fD fC fB by simp_all
  have dirs1: "dirs wB \<subseteq> dirs w1" "dirs w1 = dirs wD"
    using f1 fD fC by auto
  have dom1: "dom (files wC) \<subseteq> dom (files w1)"
    using f1 fD by simp
  obtain r2 w2 where deps2: "run_dbt_deps ev pd w1 = (r2, w2)"
    by (cases "run_dbt_deps ev pd w1") auto
  note f2 = run_dbt_deps_frame [OF deps2]
  have inv2: "invoked w2 = invoked w1 \<or> invoked w2 = invoked w1 @ [(''dbt deps'', pd)]"
    using f2 by simp
  have res2: "\<And>p. resolve w2 p = resolve wC p" "\<And>p. resolve w2 p = resolve wA p"
    "\<And>p. resolve wD p = resolve wC p"
    using f2 cwd1 fD by (simp_all add: resolve_def)
  show ?thesis
  proof (cases r2)
    case (Inl e)
    with deps2 fetch same have "pipeline ev db schemas custom if_exists w1 = Some (Inl e, w2)"
      by (simp add: pipeline_def)
    with f2 inv2 show ?thesis
      by blast
  next
    case (Inr u)
    have gen2: "source_cmd_generator db schemas True ?root w2 = (Inr plan, w2)"
      unfolding plan
    proof (rule source_cmd_generator_existing, rule ballI)
      fix s
      assume "s \<in> set schemas"
      with fB have "resolve wA (os_path_join ?root s) \<in> dirs wB"
        by blast
      with dirs1 f2 show "resolve w2 (os_path_join ?root s) \<in> dirs w2"
        unfolding res2(2) by auto
    qed
    have isfile_src: "\<forall>entry \<in> set ?src. os_path_isfile w2 (entry_destination entry)"
    proof
      fix entry
      assume "entry \<in> set ?src"
      with filesC have "os_path_isfile wC (entry_destination entry)"
        by blast
      with dom1 f2 show "os_path_isfile w2 (entry_destination entry)"
        unfolding os_path_isfile_def res2(1) by auto
    qed
    have ex1': "bash_run_and_make_files ev ''src'' (Source_mappings plan) if_exists pd w2 = (Inr (), w2)"
      using run_entries_all_skipped [OF skip isfile_src]
      by (simp add: bash_run_and_make_files_entries shape_fits_def)
    have "src_yml_scan ev plan w2 = src_yml_scan ev plan wC"
    proof (rule src_yml_scan_cong, rule ballI, clarify)
      fix s d
      assume m: "(s, d) \<in> set plan"
      let ?a = "resolve wC (source_destination_path d)"
      from m have e: "(''version: 2'', source_command d, source_destination_path d) \<in> set ?src"
        by force
      with filesC have some: "files wC ?a \<noteq> None"
        by (auto simp: os_path_isfile_def entry_destination_def)
      from source_plan_destination [OF e [unfolded plan]] obtain folder x where
        yml: "source_destination_path d = os_path_join folder (x @ ''.yml'')"
        by (auto simp: entry_destination_def)
      have "?a \<notin> resolve wD ` entry_destination ` set ?base"
      proof
        assume "?a \<in> resolve wD ` entry_destination ` set ?base"
        then obtain entry where b: "entry \<in> set ?base" "?a = resolve wD (entry_destination entry)"
          by blast
        from base_plan_destination [OF scan b(1) [unfolded bplan]] obtain folder' x' where
          "entry_destination entry = os_path_join folder' (x' @ ''.sql'')"
          by blast
        with b(2) yml sql_is_not_yml [of wD folder' x' wC folder x] show False
          by simp
      qed
      with f1 have "files w1 ?a = files wD ?a"
        by blast
      with fD f2 have "files w2 ?a = files wC ?a"
        by simp
      with some show "files w2 (resolve w2 (source_destination_path d))
             = files wC (resolve wC (source_destination_path d))
           \<and> files wC (resolve wC (source_destination_path d)) \<noteq> None"
        unfolding res2(1) by simp
    qed
    with scan have scan2: "src_yml_scan ev plan w2 = Inr scanned"
      by simp
    have bgen2: "all_base_commands_generator scanned w2 = (Inr bplan, w2)"
      unfolding bplan
    proof (rule all_base_commands_generator_existing, rule ballI, clarify)
      fix s md
      assume "(s, md) \<in> set scanned" "tables md \<noteq> []"
      with fD have "models_dir wC s \<in> dirs wD"
        by blast
      with dirs1 f2 show "models_dir w2 s \<in> dirs w2"
        unfolding models_dir_def res2(1) by simp
    qed
    have isfile_base: "\<forall>entry \<in> set ?base. os_path_isfile w2 (entry_destination entry)"
    proof
      fix entry
      assume "entry \<in> set ?base"
      with files1 have "os_path_isfile w1 (entry_destination entry)"
        by blast
      with f2 show "os_path_isfile w2 (entry_destination entry)"
        unfolding os_path_isfile_def resolve_def by simp
    qed
    have ex2': "bash_run_and_make_files ev ''base'' (Base_mappings bplan) if_exists pd w2 = (Inr (), w2)"
      using run_entries_all_skipped [OF skip isfile_base]
      by (simp add: bash_run_and_make_files_entries shape_fits_def)
    from fetch same deps2 Inr gen2 ex1' scan2 bgen2 ex2'
    have "pipeline ev db schemas custom if_exists w1 = Some (Inr (), w2)"
      by (simp add: pipeline_def)
    with f2 inv2 show ?thesis
      by blast
  qed
qed

theorem skip_rerun_changes_nothing_witness:
  "str_lower ''skip'' = ''skip''
   \<and> pipeline demo_env ''lake'' [''s''] None ''skip'' demo_world = Some (Inr (), demo_world_final)
   \<and> fetch_dbt_project demo_world_final None = fetch_dbt_project demo_world None
   \<and> (\<exists>r w2 pd. pipeline demo_env ''lake'' [''s''] None ''skip'' demo_world_final = Some (r, w2)
         \<and> files w2 = files demo_world_final \<and> dirs w2 = dirs demo_world_final
         \<and> (invoked w2 = invoked demo_world_final
              \<or> invoked w2 = invoked demo_world_final @ [(''dbt deps'', pd)]))"
proof -
  have "demo_layout demo_world_final"
    using demo_layout_demo_world by (simp add: demo_layout_def demo_world_final_def)
  then have same: "fetch_dbt_project demo_world_final None = fetch_dbt_project demo_world None"
    by (simp add: layout_fetch demo_layout_demo_world)
  from skip_rerun_changes_nothing [OF str_lower_skip demo_pipeline same]
    str_lower_skip demo_pipeline same
  show ?thesis
    by (intro conjI)
qed

text \<open>
  The claim as stated fails when the second run finds another project than the first.
  Both runs below are under \<open>skip\<close>, with the same arguments, from the same working
  directory, and nothing touches the file system between them; the first run ends
  without an exception. It runs in \<open>/p\<close> and makes the directory
  \<open>/p/models/dbt_project.yml\<close>; the second run finds that name in its working directory,
  runs in \<open>/p/models\<close>, and there the declaration file does not exist yet: the generation
  command is run again and a new file is written.
\<close>

theorem rerun_relocated_counterexample:
  "pipeline nested_env ''lake'' [''dbt_project.yml''] None ''skip'' nested_world
     = Some (Inr (), nested_world_1)
   \<and> pipeline nested_env ''lake'' [''dbt_project.yml''] None ''skip'' nested_world_1
     = Some (Inr (), nested_world_2)
   \<and> invoked nested_world_2
     = invoked nested_world_1
       @ [(''dbt deps'', ''/p/models''),
          (src_cmd ''dbt_project.yml'' ''lake'' True, ''/p/models'')]
   \<and> files nested_world_1 ''/p/models/models/dbt_project.yml/_src_dbt_project.yml.yml'' = None
   \<and> files nested_world_2 ''/p/models/models/dbt_project.yml/_src_dbt_project.yml.yml''
     = Some nested_yml"
  using nested_pipeline_1 nested_pipeline_2
  by (simp add: nested_world_2_def nested_world_1_def nested_world_def)

text \<open>
  It also fails when the first run does not get to its end: here the source generator
  fails in the first run, which therefore writes nothing, and the second run, started in
  the world the first one left, runs both generation commands and writes both files.
\<close>

theorem rerun_after_failure_counterexample:
  "str_lower ''skip'' = ''skip''
   \<and> pipeline flaky_env ''lake'' [''s''] None ''skip'' demo_world
       = Some (Inl (CalledProcessError 1), demo_world_failed)
   \<and> pipeline flaky_env ''lake'' [''s''] None ''skip'' demo_world_failed
       = Some (Inr (), demo_world_retried)
   \<and> invoked demo_world_retried
       = invoked demo_world_failed
         @ [(''dbt deps'', ''/p''), (src_cmd ''s'' ''lake'' True, ''/p''),
            (base_cmd ''s'' (YStr ''t''), ''/p'')]
   \<and> files demo_world_failed ''/p/models/s/_src_s.yml'' = None
   \<and> files demo_world_retried ''/p/models/s/_src_s.yml'' = Some demo_yml"
proof -
  have f: "files demo_world ''/p/models/s/_src_s.yml'' = None"
    "files demo_world ''/p/models/s/stg_s__t.sql'' = None" "invoked demo_world = []"
    by (simp_all add: demo_world_def)
  have r1: "run_process flaky_env (src_cmd ''s'' ''lake'' True) ''/p''
           (demo_world\<lparr>invoked := invoked demo_world @ [(''dbt deps'', ''/p'')]\<rparr>) = (1, [])"
    by (simp add: flaky_env_def f(3) src_cmd_def)
  have first: "pipeline flaky_env ''lake'' [''s''] None ''skip'' demo_world
       = Some (Inl (CalledProcessError 1), demo_world_failed)"
    using layout_pipeline_fails [OF demo_layout_demo_world demo_like_flaky_env f(1) r1]
    by (simp add: demo_world_failed_def f(3))
  have l: "demo_layout demo_world_failed"
    unfolding demo_world_failed_def using demo_layout_demo_world by (rule demo_layout_invoked)
  have g: "files demo_world_failed ''/p/models/s/_src_s.yml'' = None"
    "files demo_world_failed ''/p/models/s/stg_s__t.sql'' = None"
    by (simp_all add: demo_world_failed_def f)
  have r2: "run_process flaky_env (src_cmd ''s'' ''lake'' True) ''/p''
           (demo_world_failed\<lparr>invoked := invoked demo_world_failed @ [(''dbt deps'', ''/p'')]\<rparr>)
           = (0, demo_output)"
    using demo_same_output by (simp add: flaky_env_def demo_world_failed_def)
  have second: "pipeline flaky_env ''lake'' [''s''] None ''skip'' demo_world_failed
       = Some (Inr (), demo_world_retried)"
    using layout_pipeline [OF l demo_like_flaky_env g r2]
    by (simp add: demo_world_failed_def demo_world_retried_def)
  have i: "invoked demo_world_retried
       = invoked demo_world_failed
         @ [(''dbt deps'', ''/p''), (src_cmd ''s'' ''lake'' True, ''/p''),
            (base_cmd ''s'' (YStr ''t''), ''/p'')]"
    by (simp add: demo_world_failed_def demo_world_retried_def)
  have h: "files demo_world_retried ''/p/models/s/_src_s.yml'' = Some demo_yml"
    by (simp add: demo_world_retried_def)
  from str_lower_skip first second i g(1) h show ?thesis
    by (intro conjI)
qed

end
